theory Spec2Isabelle
  imports
    Main
    "HOL-Library.Char_ord"
    "HOL-Library.List_Lexorder"
    "HOL-Library.Product_Lexorder"
    "HOL-Library.Finite_Map"
    "HOL-Library.Multiset"
begin

section \<open>Data model\<close>

text \<open>
  The classes \<open>Flight\<close>, \<open>Passenger\<close> and \<open>Booking\<close> of \<open>Airline_Managment.py\<close>.
  Identifiers, airport codes and times are Python strings; Python compares strings
  lexicographically by code point, which is the order on \<open>string\<close> given by
  \<open>Char_ord\<close> and \<open>List_Lexorder\<close>. Capacity, price, distance and the seat counter are
  Python integers, hence \<open>int\<close>. A field whose name occurs in two classes carries a
  prefix in the later record (\<open>b_\<close> for Booking, \<open>g_\<close> for AirportGraph, \<open>sys_\<close> for
  AirlineManagementSystem).
\<close>

record flight =
  flight_id :: string
  origin :: string
  destination :: string
  departure_time :: string
  arrival_time :: string
  capacity :: int
  price :: int
  distance :: int
  booked_seats :: int
  passengers :: "string list"
  waiting_list :: "string list"

text \<open>\<open>Flight.__init__\<close>: no seat booked, no passenger, empty waiting queue.\<close>

definition Flight ::
  "string \<Rightarrow> string \<Rightarrow> string \<Rightarrow> string \<Rightarrow> string \<Rightarrow> int \<Rightarrow> int \<Rightarrow> int \<Rightarrow> flight" where
  "Flight fid orig dest dep arr cap pr dist =
     \<lparr>flight_id = fid, origin = orig, destination = dest, departure_time = dep,
      arrival_time = arr, capacity = cap, price = pr, distance = dist,
      booked_seats = 0, passengers = [], waiting_list = []\<rparr>"

definition is_available :: "flight \<Rightarrow> bool" where
  "is_available f = (booked_seats f < capacity f)"

record passenger =
  passenger_id :: string
  name :: string
  email :: string
  phone :: string
  bookings :: "string list"

definition Passenger :: "string \<Rightarrow> string \<Rightarrow> string \<Rightarrow> string \<Rightarrow> passenger" where
  "Passenger pid n e ph = \<lparr>passenger_id = pid, name = n, email = e, phone = ph, bookings = []\<rparr>"

datatype status = CONFIRMED | CANCELLED | WAITLISTED

record booking =
  booking_id :: string
  b_passenger_id :: string
  b_flight_id :: string
  booking_time :: nat
  status :: status

section \<open>FlightSchedule\<close>

text \<open>
  The singly linked list of \<open>FlightNode\<close>s is the list of the flights met when following
  \<open>next\<close> from \<open>head\<close>; an empty list is \<open>head = None\<close>.
\<close>

record flight_schedule =
  head :: "flight list"
  size :: int

definition FlightSchedule :: flight_schedule where
  "FlightSchedule = \<lparr>head = [], size = 0\<rparr>"

text \<open>
  The \<open>while\<close> loop of \<open>FlightSchedule.add_flight\<close>: the second argument is the
  node \<open>current\<close>, the third the chain \<open>current.next\<close>. The loop advances while the node
  after \<open>current\<close> departs strictly earlier than the new flight; the new node is then
  linked in right after \<open>current\<close>. The result is the chain from the first \<open>current\<close>.
\<close>

fun insert_after :: "flight \<Rightarrow> flight \<Rightarrow> flight list \<Rightarrow> flight list" where
  "insert_after fl current [] = [current, fl]"
| "insert_after fl current (nxt # rest) =
     (if departure_time nxt < departure_time fl
      then current # insert_after fl nxt rest
      else current # fl # nxt # rest)"

definition schedule_add_flight :: "flight_schedule \<Rightarrow> flight \<Rightarrow> flight_schedule" where
  "schedule_add_flight sch fl =
     (case head sch of
        [] \<Rightarrow> \<lparr>head = [fl], size = size sch + 1\<rparr>
      | h # rest \<Rightarrow>
          if departure_time fl < departure_time h
          then \<lparr>head = fl # h # rest, size = size sch + 1\<rparr>
          else \<lparr>head = insert_after fl h rest, size = size sch + 1\<rparr>)"

definition display_schedule :: "flight_schedule \<Rightarrow> flight list" where
  "display_schedule sch = head sch"

text \<open>A sequence of \<open>add_flight\<close> calls on a new schedule.\<close>

definition schedule_of :: "flight list \<Rightarrow> flight_schedule" where
  "schedule_of fls = foldl schedule_add_flight FlightSchedule fls"

section \<open>AirportGraph\<close>

text \<open>
  \<open>flights\<close> is a \<open>defaultdict(list)\<close> from an origin airport to the flights appended for
  it: a finite map, read with the default \<open>[]\<close> for a missing key. \<open>distances\<close> and
  \<open>prices\<close> are nested default dictionaries whose default is \<open>float('inf')\<close>: \<open>None\<close>
  stands for that default.
\<close>

record airport_graph =
  airports :: "string set"
  g_flights :: "(string, flight list) fmap"
  distances :: "string \<times> string \<Rightarrow> int option"
  prices :: "string \<times> string \<Rightarrow> int option"

definition AirportGraph :: airport_graph where
  "AirportGraph = \<lparr>airports = {}, g_flights = fmempty,
                    distances = (\<lambda>_. None), prices = (\<lambda>_. None)\<rparr>"

definition flights_from :: "airport_graph \<Rightarrow> string \<Rightarrow> flight list" where
  "flights_from g airport = (case fmlookup (g_flights g) airport of None \<Rightarrow> [] | Some fls \<Rightarrow> fls)"

definition min_inf :: "int option \<Rightarrow> int \<Rightarrow> int" where
  "min_inf old v = (case old of None \<Rightarrow> v | Some m \<Rightarrow> min m v)"

definition graph_add_airport :: "airport_graph \<Rightarrow> string \<Rightarrow> airport_graph" where
  "graph_add_airport g airport = g\<lparr>airports := insert airport (airports g)\<rparr>"

definition add_flight_route :: "airport_graph \<Rightarrow> flight \<Rightarrow> airport_graph" where
  "add_flight_route g fl =
     (let orig = origin fl; dest = destination fl in
      g\<lparr>airports := insert dest (insert orig (airports g)),
        g_flights := fmupd orig (flights_from g orig @ [fl]) (g_flights g),
        distances := (distances g)((orig, dest) := Some (min_inf (distances g (orig, dest)) (distance fl))),
        prices := (prices g)((orig, dest) := Some (min_inf (prices g (orig, dest)) (price fl)))\<rparr>)"

subsection \<open>dijkstra_shortest_path\<close>

text \<open>
  The priority queue holds tuples \<open>(cost, airport, path)\<close>, which Python compares
  lexicographically: the order of \<open>Product_Lexorder\<close>. \<open>heapq\<close> keeps them in an array
  with the heap property; \<open>heappop\<close> removes and returns the least tuple, whatever the
  arrangement of the array, so the queue is modelled by the list of its tuples:
  \<open>heappush\<close> adds one, \<open>heappop\<close> takes the least one out (\<open>None\<close> on an empty queue,
  where the loop condition \<open>while pq\<close> ends the loop).
\<close>

type_synonym pq_entry = "int \<times> string \<times> string list"

definition heappush :: "pq_entry list \<Rightarrow> pq_entry \<Rightarrow> pq_entry list" where
  "heappush pq item = pq @ [item]"

fun heappop :: "pq_entry list \<Rightarrow> (pq_entry \<times> pq_entry list) option" where
  "heappop [] = None"
| "heappop (x # xs) = (let item = fold min xs x in Some (item, remove1 item (x # xs)))"

definition edge_cost :: "string \<Rightarrow> flight \<Rightarrow> int" where
  "edge_cost criteria fl = (if criteria = ''distance'' then distance fl else price fl)"

text \<open>The \<open>for flight in self.flights[current_airport]\<close> loop.\<close>

fun push_flights ::
  "string \<Rightarrow> string set \<Rightarrow> int \<Rightarrow> string list \<Rightarrow> flight list \<Rightarrow> pq_entry list \<Rightarrow> pq_entry list" where
  "push_flights criteria visited current_cost path [] pq = pq"
| "push_flights criteria visited current_cost path (fl # rest) pq =
     (let next_airport = destination fl in
      if next_airport \<notin> visited
      then push_flights criteria visited current_cost path rest
             (heappush pq (current_cost + edge_cost criteria fl, next_airport, path @ [next_airport]))
      else push_flights criteria visited current_cost path rest pq)"

text \<open>The airports that an entry of the queue or a flight of the graph can lead to.\<close>

definition graph_dests :: "airport_graph \<Rightarrow> string set" where
  "graph_dests g = (\<Union>fls \<in> fmran' (g_flights g). destination ` set fls)"

definition pq_airports :: "pq_entry list \<Rightarrow> string set" where
  "pq_airports pq = (fst \<circ> snd) ` set pq"

text \<open>
  Termination of the \<open>while pq\<close> loop: every iteration either marks a new airport as
  visited, of the finitely many that the queue and the graph mention, or shortens the
  queue. The facts below are what the termination proof needs.
\<close>

lemma finite_graph_dests: "finite (graph_dests g)"
  unfolding graph_dests_def
  by (rule finite_UN_I) (auto simp: fmran'_alt_def)

lemma heappop_Some:
  "heappop pq = Some (item, pq') \<Longrightarrow> item \<in> set pq \<and> pq' = remove1 item pq \<and> (\<forall>e \<in> set pq. item \<le> e)"
proof (cases pq)
  case Nil then show "heappop pq = Some (item, pq') \<Longrightarrow> ?thesis" by simp
next
  case (Cons x xs)
  assume h: "heappop pq = Some (item, pq')"
  have m: "fold min xs x = Min (set (x # xs))" by (rule Min.set_eq_fold[symmetric])
  from h Cons have i: "item = Min (set (x # xs))" and p: "pq' = remove1 item pq"
    unfolding m[symmetric] by (auto simp: Let_def)
  have "item \<in> set (x # xs)" unfolding i by (rule Min_in) auto
  moreover have "\<forall>e \<in> set (x # xs). item \<le> e" unfolding i by (auto intro: Min_le)
  ultimately show ?thesis using p Cons by simp
qed

lemma set_push_flights:
  "set (push_flights crit vis c p fls pq) =
     set pq \<union> (\<lambda>fl. (c + edge_cost crit fl, destination fl, p @ [destination fl])) `
                {fl \<in> set fls. destination fl \<notin> vis}"
  by (induction fls arbitrary: pq) (auto simp: Let_def heappush_def)

lemma pq_airports_push:
  "pq_airports (push_flights crit vis c p fls pq) \<subseteq> pq_airports pq \<union> destination ` set fls"
  by (auto simp: set_push_flights pq_airports_def)

lemma length_remove1_lt: "x \<in> set xs \<Longrightarrow> length (remove1 x xs) < length xs"
  by (simp add: length_remove1) (cases xs; auto)

lemma flights_from_dests: "destination ` set (flights_from g a) \<subseteq> graph_dests g"
proof (cases "fmlookup (g_flights g) a")
  case None then show ?thesis by (simp add: flights_from_def)
next
  case (Some fls)
  then have "fls \<in> fmran' (g_flights g)" by (rule fmran'I)
  then show ?thesis using Some by (auto simp: flights_from_def graph_dests_def)
qed

text \<open>
  The \<open>while pq\<close> loop. \<open>None\<close> is the final \<open>return None, float('inf')\<close>, and
  \<open>Some (path, cost)\<close> the \<open>return path, current_cost\<close> inside the loop.
\<close>

function dijkstra_loop ::
  "airport_graph \<Rightarrow> string \<Rightarrow> string \<Rightarrow> pq_entry list \<Rightarrow> string set \<Rightarrow> (string list \<times> int) option" where
  "dijkstra_loop g end criteria pq visited =
     (case heappop pq of
        None \<Rightarrow> None
      | Some ((current_cost, current_airport, path), pq') \<Rightarrow>
          if current_airport \<in> visited
          then dijkstra_loop g end criteria pq' visited
          else let visited' = insert current_airport visited in
               if current_airport = end then Some (path, current_cost)
               else dijkstra_loop g end criteria
                      (push_flights criteria visited' current_cost path
                         (flights_from g current_airport) pq')
                      visited')"
  by pat_completeness auto
termination
proof (relation "(\<lambda>(g, e, c, pq, visited). card ((graph_dests g \<union> pq_airports pq) - visited))
                   <*mlex*> measure (\<lambda>(g, e, c, pq, visited). length pq)")
  show "wf ((\<lambda>(g, e, c, pq, visited). card ((graph_dests g \<union> pq_airports pq) - visited))
             <*mlex*> measure (\<lambda>(g, e, c, pq, visited). length pq))"
    by (simp add: wf_mlex)
next
  fix g :: airport_graph and e criteria :: string and pq :: "pq_entry list" and visited x2 x1 pq' cc y ca path
  assume h: "heappop pq = Some x2" "(x1, pq') = x2" "(cc, y) = x1" "(ca, path) = y" "ca \<in> visited"
  then have hp: "heappop pq = Some ((cc, ca, path), pq')" by auto
  from heappop_Some[OF hp] have in_pq: "(cc, ca, path) \<in> set pq" and pq': "pq' = remove1 (cc, ca, path) pq" by auto
  have fin: "finite ((graph_dests g \<union> pq_airports pq) - visited)"
    by (simp add: finite_graph_dests pq_airports_def)
  have "pq_airports pq' \<subseteq> pq_airports pq" unfolding pq' pq_airports_def using set_remove1_subset by fastforce
  then have "card ((graph_dests g \<union> pq_airports pq') - visited) \<le> card ((graph_dests g \<union> pq_airports pq) - visited)"
    by (intro card_mono fin) auto
  moreover have "length pq' < length pq" unfolding pq' using in_pq by (rule length_remove1_lt)
  ultimately show "((g, e, criteria, pq', visited), g, e, criteria, pq, visited)
       \<in> (\<lambda>(g, e, c, pq, visited). card ((graph_dests g \<union> pq_airports pq) - visited))
             <*mlex*> measure (\<lambda>(g, e, c, pq, visited). length pq)"
    by (auto simp: mlex_iff)
next
  fix g :: airport_graph and e criteria :: string and pq :: "pq_entry list" and visited x2 x1 pq' cc y ca path xa
  assume h: "heappop pq = Some x2" "(x1, pq') = x2" "(cc, y) = x1" "(ca, path) = y" "ca \<notin> visited"
     "xa = insert ca visited"
  then have hp: "heappop pq = Some ((cc, ca, path), pq')" by auto
  from heappop_Some[OF hp] have in_pq: "(cc, ca, path) \<in> set pq" and pq': "pq' = remove1 (cc, ca, path) pq" by auto
  let ?pq2 = "push_flights criteria xa cc path (flights_from g ca) pq'"
  have fin: "finite ((graph_dests g \<union> pq_airports pq) - visited)"
    by (simp add: finite_graph_dests pq_airports_def)
  have sub1: "pq_airports pq' \<subseteq> pq_airports pq" unfolding pq' pq_airports_def using set_remove1_subset by fastforce
  have sub2: "pq_airports ?pq2 \<subseteq> graph_dests g \<union> pq_airports pq"
    using pq_airports_push[of criteria xa cc path "flights_from g ca" pq'] sub1 flights_from_dests[of g ca] by blast
  have ca_in: "ca \<in> pq_airports pq" using in_pq by (force simp: pq_airports_def)
  have "(graph_dests g \<union> pq_airports ?pq2) - xa \<subset> (graph_dests g \<union> pq_airports pq) - visited"
    using sub2 ca_in h(5,6) by auto
  then have "card ((graph_dests g \<union> pq_airports ?pq2) - xa) < card ((graph_dests g \<union> pq_airports pq) - visited)"
    by (rule psubset_card_mono[OF fin])
  then show "((g, e, criteria, ?pq2, xa), g, e, criteria, pq, visited)
       \<in> (\<lambda>(g, e, c, pq, visited). card ((graph_dests g \<union> pq_airports pq) - visited))
             <*mlex*> measure (\<lambda>(g, e, c, pq, visited). length pq)"
    by (auto simp: mlex_iff)
qed


definition dijkstra_shortest_path ::
  "airport_graph \<Rightarrow> string \<Rightarrow> string \<Rightarrow> string \<Rightarrow> (string list \<times> int) option" where
  "dijkstra_shortest_path g start end criteria =
     (if start \<notin> airports g \<or> end \<notin> airports g then None
      else dijkstra_loop g end criteria [(0, start, [start])] {})"

subsection \<open>find_all_routes\<close>

record route =
  path :: "string list"
  stops :: int
  total_distance :: int
  total_price :: int

text \<open>
  The nested function \<open>dfs\<close>. The Python appends each route to the list \<open>routes\<close> of the
  enclosing call; the model returns the routes that one call of \<open>dfs\<close> appends, in the
  order it appends them. \<open>path.append\<close> before and \<open>path.pop\<close> after the recursive call
  leave \<open>path\<close> as it was, so the recursive call receives \<open>path @ [next_airport]\<close>.
\<close>

function dfs ::
  "airport_graph \<Rightarrow> int \<Rightarrow> string \<Rightarrow> string \<Rightarrow> string list \<Rightarrow> int \<Rightarrow> int \<Rightarrow> int \<Rightarrow> route list" where
  "dfs g max_stops dest current pth stps tot_distance tot_price =
     (if stps > max_stops then []
      else if current = dest \<and> length pth > 1
      then [\<lparr>path = pth, stops = stps, total_distance = tot_distance, total_price = tot_price\<rparr>]
      else concat (map (\<lambda>fl.
             let next_airport = destination fl in
             if next_airport \<notin> set pth
             then dfs g max_stops dest next_airport (pth @ [next_airport]) (stps + 1)
                    (tot_distance + distance fl) (tot_price + price fl)
             else [])
           (flights_from g current)))"
  by pat_completeness auto
termination
  by (relation "measure (\<lambda>(g, max_stops, dest, current, pth, stps, td, tp). nat (max_stops + 1 - stps))") auto

definition find_all_routes :: "airport_graph \<Rightarrow> string \<Rightarrow> string \<Rightarrow> int \<Rightarrow> route list" where
  "find_all_routes g start end max_stops = dfs g max_stops end start [start] 0 0 0"

section \<open>AirlineManagementSystem\<close>

text \<open>
  \<open>passengers\<close> and \<open>flights\<close> are dictionaries that are only looked up and stored into:
  maps. \<open>bookings\<close> is also iterated (\<open>self.bookings.items()\<close>, in insertion order), so
  it is the list of its items in insertion order; storing under a key that is present
  replaces the value in place, storing under a new key appends (\<open>alist_store\<close>).

  The \<open>Flight\<close> object that \<open>add_flight\<close> creates is shared by \<open>self.flights\<close>, the
  schedule and the graph. \<open>book_flight\<close> and \<open>cancel_booking\<close> reach it through
  \<open>self.flights\<close> and assign only \<open>booked_seats\<close>, \<open>passengers\<close> and \<open>waiting_list\<close>; the
  schedule and graph operations modelled here read only \<open>departure_time\<close>,
  \<open>destination\<close>, \<open>distance\<close> and \<open>price\<close>, which are never assigned after construction.
  So \<open>sys_flights\<close> holds the current state of each flight, and the schedule and the
  graph hold the flight as it was added.
\<close>

record airline_management_system =
  airport_graph :: airport_graph
  flight_schedule :: flight_schedule
  sys_passengers :: "string \<Rightarrow> passenger option"
  sys_bookings :: "(string \<times> booking) list"
  sys_flights :: "string \<Rightarrow> flight option"

definition AirlineManagementSystem :: airline_management_system where
  "AirlineManagementSystem =
     \<lparr>airport_graph = AirportGraph, flight_schedule = FlightSchedule,
      sys_passengers = Map.empty, sys_bookings = [], sys_flights = Map.empty\<rparr>"

fun alist_store :: "'k \<Rightarrow> 'v \<Rightarrow> ('k \<times> 'v) list \<Rightarrow> ('k \<times> 'v) list" where
  "alist_store k v [] = [(k, v)]"
| "alist_store k v ((k', v') # rest) =
     (if k' = k then (k, v) # rest else (k', v') # alist_store k v rest)"

definition add_airport :: "airline_management_system \<Rightarrow> string \<Rightarrow> airline_management_system" where
  "add_airport s airport_code = s\<lparr>airport_graph := graph_add_airport (airport_graph s) airport_code\<rparr>"

definition add_flight ::
  "airline_management_system \<Rightarrow> string \<Rightarrow> string \<Rightarrow> string \<Rightarrow> string \<Rightarrow> string \<Rightarrow> int \<Rightarrow> int \<Rightarrow> int
   \<Rightarrow> airline_management_system" where
  "add_flight s fid orig dest dep arr cap pr dist =
     (let fl = Flight fid orig dest dep arr cap pr dist in
      s\<lparr>sys_flights := (sys_flights s)(fid \<mapsto> fl),
        flight_schedule := schedule_add_flight (flight_schedule s) fl,
        airport_graph := add_flight_route (airport_graph s) fl\<rparr>)"

text \<open>
  The identifiers come from \<open>uuid.uuid4()\<close> and the booking time from \<open>datetime.now()\<close>:
  they are inputs of the model, chosen by the environment.
\<close>

definition register_passenger ::
  "airline_management_system \<Rightarrow> string \<Rightarrow> string \<Rightarrow> string \<Rightarrow> string
   \<Rightarrow> string \<times> airline_management_system" where
  "register_passenger s n e ph pid =
     (pid, s\<lparr>sys_passengers := (sys_passengers s)(pid \<mapsto> Passenger pid n e ph)\<rparr>)"

text \<open>
  \<open>book_flight\<close> returns \<open>None\<close> (after printing "not found") or the new booking id.
\<close>

definition book_flight ::
  "airline_management_system \<Rightarrow> string \<Rightarrow> string \<Rightarrow> string \<Rightarrow> nat
   \<Rightarrow> string option \<times> airline_management_system" where
  "book_flight s pid fid bid btime =
     (case sys_passengers s pid of
        None \<Rightarrow> (None, s)
      | Some psg \<Rightarrow>
          (case sys_flights s fid of
             None \<Rightarrow> (None, s)
           | Some fl \<Rightarrow>
               if is_available fl
               then (Some bid,
                     s\<lparr>sys_bookings := alist_store bid
                          \<lparr>booking_id = bid, b_passenger_id = pid, b_flight_id = fid,
                           booking_time = btime, status = CONFIRMED\<rparr> (sys_bookings s),
                       sys_flights := (sys_flights s)(fid \<mapsto>
                          fl\<lparr>booked_seats := booked_seats fl + 1,
                             passengers := passengers fl @ [pid]\<rparr>),
                       sys_passengers := (sys_passengers s)(pid \<mapsto>
                          psg\<lparr>bookings := bookings psg @ [bid]\<rparr>)\<rparr>)
               else (Some bid,
                     s\<lparr>sys_bookings := alist_store bid
                          \<lparr>booking_id = bid, b_passenger_id = pid, b_flight_id = fid,
                           booking_time = btime, status = WAITLISTED\<rparr> (sys_bookings s),
                       sys_flights := (sys_flights s)(fid \<mapsto>
                          fl\<lparr>waiting_list := waiting_list fl @ [pid]\<rparr>),
                       sys_passengers := (sys_passengers s)(pid \<mapsto>
                          psg\<lparr>bookings := bookings psg @ [bid]\<rparr>)\<rparr>)))"

text \<open>
  The exceptions \<open>cancel_booking\<close> can raise: \<open>KeyError\<close> from a dictionary lookup,
  \<open>ValueError\<close> from \<open>list.remove\<close> of an absent element. The call ends with the value it
  returns or the exception it raises, and with the state it has reached by then.
\<close>

datatype py_error = KeyError | ValueError

text \<open>
  The \<open>for bid, b in self.bookings.items()\<close> loop of the promotion: the first booking,
  in insertion order, of the passenger for the flight that is WAITLISTED becomes
  CONFIRMED, and the loop breaks. \<open>None\<close> when the loop ends without a match.
\<close>

fun confirm_waitlisted ::
  "string \<Rightarrow> string \<Rightarrow> (string \<times> booking) list \<Rightarrow> (string \<times> booking) list option" where
  "confirm_waitlisted pid fid [] = None"
| "confirm_waitlisted pid fid ((bid, b) # rest) =
     (if b_passenger_id b = pid \<and> b_flight_id b = fid \<and> status b = WAITLISTED
      then Some ((bid, b\<lparr>status := CONFIRMED\<rparr>) # rest)
      else map_option ((#) (bid, b)) (confirm_waitlisted pid fid rest))"

text \<open>\<open>booking.status = "CANCELLED"\<close> for the booking stored under a key.\<close>

fun set_status :: "string \<Rightarrow> status \<Rightarrow> (string \<times> booking) list \<Rightarrow> (string \<times> booking) list" where
  "set_status bid st [] = []"
| "set_status bid st ((k, b) # rest) =
     (if k = bid then (k, b\<lparr>status := st\<rparr>) # rest else (k, b) # set_status bid st rest)"

text \<open>
  The body of \<open>if flight.waiting_list:\<close>, on the flight and the bookings: pop the head
  of the queue and confirm that passenger's waitlisted booking, if there is one.
\<close>

definition promote_next ::
  "string \<Rightarrow> flight \<Rightarrow> (string \<times> booking) list \<Rightarrow> flight \<times> (string \<times> booking) list" where
  "promote_next fid fl bks =
     (case waiting_list fl of
        [] \<Rightarrow> (fl, bks)
      | next_passenger_id # rest \<Rightarrow>
          (let fl1 = fl\<lparr>waiting_list := rest\<rparr> in
           case confirm_waitlisted next_passenger_id fid bks of
             None \<Rightarrow> (fl1, bks)
           | Some bks' \<Rightarrow>
               (fl1\<lparr>booked_seats := booked_seats fl1 + 1,
                    passengers := passengers fl1 @ [next_passenger_id]\<rparr>,
                bks')))"

text \<open>The last two statements: the booking becomes CANCELLED and leaves the passenger's list.\<close>

definition finish_cancel ::
  "airline_management_system \<Rightarrow> string \<Rightarrow> booking \<Rightarrow> passenger
   \<Rightarrow> (py_error + bool) \<times> airline_management_system" where
  "finish_cancel s bid bk psg =
     (let s1 = s\<lparr>sys_bookings := set_status bid CANCELLED (sys_bookings s)\<rparr> in
      if bid \<notin> set (bookings psg) then (Inl ValueError, s1)
      else (Inr True,
            s1\<lparr>sys_passengers := (sys_passengers s1)(b_passenger_id bk \<mapsto>
                  psg\<lparr>bookings := remove1 bid (bookings psg)\<rparr>)\<rparr>))"

definition cancel_booking ::
  "airline_management_system \<Rightarrow> string \<Rightarrow> (py_error + bool) \<times> airline_management_system" where
  "cancel_booking s bid =
     (case map_of (sys_bookings s) bid of
        None \<Rightarrow> (Inr False, s)
      | Some bk \<Rightarrow>
          (case sys_flights s (b_flight_id bk) of
             None \<Rightarrow> (Inl KeyError, s)
           | Some fl \<Rightarrow>
               (case sys_passengers s (b_passenger_id bk) of
                  None \<Rightarrow> (Inl KeyError, s)
                | Some psg \<Rightarrow>
                    if status bk = CONFIRMED then
                      (let fl1 = fl\<lparr>booked_seats := booked_seats fl - 1\<rparr> in
                       if b_passenger_id bk \<notin> set (passengers fl1)
                       then (Inl ValueError, s\<lparr>sys_flights := (sys_flights s)(b_flight_id bk \<mapsto> fl1)\<rparr>)
                       else
                         (let fl2 = fl1\<lparr>passengers := remove1 (b_passenger_id bk) (passengers fl1)\<rparr>;
                              (fl3, bks) = promote_next (b_flight_id bk) fl2 (sys_bookings s)
                          in finish_cancel
                               (s\<lparr>sys_flights := (sys_flights s)(b_flight_id bk \<mapsto> fl3),
                                  sys_bookings := bks\<rparr>) bid bk psg))
                    else if status bk = WAITLISTED then
                      finish_cancel
                        (s\<lparr>sys_flights := (sys_flights s)(b_flight_id bk \<mapsto>
                             fl\<lparr>waiting_list := remove1 (b_passenger_id bk) (waiting_list fl)\<rparr>)\<rparr>)
                        bid bk psg
                    else finish_cancel s bid bk psg)))"

declare dfs.simps [simp del]

declare dijkstra_loop.simps [simp del]

text \<open>
  A run of the system: a sequence of calls of its four state-changing operations. For
  \<open>cancel_booking\<close> the next call starts from the state the call has reached, whether
  it returned or raised.
\<close>

datatype operation =
    AddFlight string string string string string int int int
  | RegisterPassenger string string string string
  | BookFlight string string string nat
  | CancelBooking string

fun apply_operation :: "airline_management_system \<Rightarrow> operation \<Rightarrow> airline_management_system" where
  "apply_operation s (AddFlight fid orig dest dep arr cap pr dist) =
     add_flight s fid orig dest dep arr cap pr dist"
| "apply_operation s (RegisterPassenger n e ph pid) = snd (register_passenger s n e ph pid)"
| "apply_operation s (BookFlight pid fid bid btime) = snd (book_flight s pid fid bid btime)"
| "apply_operation s (CancelBooking bid) = snd (cancel_booking s bid)"

section \<open>Vocabulary of the properties\<close>

text \<open>
  An item of \<open>bookings\<close> is a waitlisted booking of a passenger for a flight: the
  condition the promotion loop tests.
\<close>

definition waitlisted_for :: "string \<Rightarrow> string \<Rightarrow> string \<times> booking \<Rightarrow> bool" where
  "waitlisted_for pid fid kb =
     (b_passenger_id (snd kb) = pid \<and> b_flight_id (snd kb) = fid \<and> status (snd kb) = WAITLISTED)"

text \<open>
  An item of \<open>bookings\<close> is a confirmed booking of a passenger for a flight, or a
  confirmed booking for a flight.
\<close>

definition confirmed_by :: "string \<Rightarrow> string \<Rightarrow> string \<times> booking \<Rightarrow> bool" where
  "confirmed_by pid fid kb =
     (b_passenger_id (snd kb) = pid \<and> b_flight_id (snd kb) = fid \<and> status (snd kb) = CONFIRMED)"

definition confirmed_on :: "string \<Rightarrow> string \<times> booking \<Rightarrow> bool" where
  "confirmed_on fid kb = (b_flight_id (snd kb) = fid \<and> status (snd kb) = CONFIRMED)"

text \<open>
  A flight is freshly added when its capacity is not negative and no confirmed booking
  refers to its id, as is the case for an id that was never used. A run is admissible
  when every flight it adds is freshly added in the state it is added to.
\<close>

fun freshly_added :: "airline_management_system \<Rightarrow> operation \<Rightarrow> bool" where
  "freshly_added s (AddFlight fid orig dest dep arr cap pr dist) =
     (0 \<le> cap \<and> filter (confirmed_on fid) (sys_bookings s) = [])"
| "freshly_added s _ = True"

fun admissible :: "airline_management_system \<Rightarrow> operation list \<Rightarrow> bool" where
  "admissible s [] = True"
| "admissible s (oper # ops) = (freshly_added s oper \<and> admissible (apply_operation s oper) ops)"

text \<open>
  The invariant of the booking ledger. For every flight of the flight map, the seat
  counter is the length of the passenger list and at most the capacity, and every
  passenger occurs on the passenger list at least as often as the passenger has confirmed
  bookings for the flight (so that \<open>flight.passengers.remove\<close> finds the passenger of a
  confirmed booking).
\<close>

definition flight_ok :: "(string \<times> booking) list \<Rightarrow> string \<Rightarrow> flight \<Rightarrow> bool" where
  "flight_ok bks fid fl =
     (booked_seats fl = int (length (passengers fl)) \<and> booked_seats fl \<le> capacity fl
      \<and> (\<forall>pid. length (filter (confirmed_by pid fid) bks) \<le> count_list (passengers fl) pid))"

definition ledger_inv :: "airline_management_system \<Rightarrow> bool" where
  "ledger_inv s = (\<forall>fid fl. sys_flights s fid = Some fl \<longrightarrow> flight_ok (sys_bookings s) fid fl)"

text \<open>
  A path of the graph is a list of flights: the first is one of the flights from the
  start airport, each next one is one of the flights from the destination of the one
  before, and the last arrives at the end airport. The empty list is the path from an
  airport to itself. \<open>airports_of\<close> is the sequence of airports a path visits, and
  \<open>route_of\<close> the record \<open>find_all_routes\<close> builds for it.
\<close>

fun is_path :: "airport_graph \<Rightarrow> string \<Rightarrow> flight list \<Rightarrow> string \<Rightarrow> bool" where
  "is_path g a [] b = (a = b)"
| "is_path g a (fl # fls) b = (fl \<in> set (flights_from g a) \<and> is_path g (destination fl) fls b)"

definition airports_of :: "string \<Rightarrow> flight list \<Rightarrow> string list" where
  "airports_of start fls = start # map destination fls"

definition route_of :: "string \<Rightarrow> flight list \<Rightarrow> route" where
  "route_of start fls =
     \<lparr>path = airports_of start fls, stops = int (length fls),
      total_distance = sum_list (map distance fls), total_price = sum_list (map price fls)\<rparr>"

text \<open>
  What one call of \<open>dfs\<close> is to return: the extensions of the path \<open>pth\<close> from
  \<open>current\<close> to the destination by flights to distinct airports that are not on
  \<open>pth\<close>, within the bound.
\<close>

definition dfs_routes ::
  "airport_graph \<Rightarrow> int \<Rightarrow> string \<Rightarrow> string \<Rightarrow> string list \<Rightarrow> int \<Rightarrow> int \<Rightarrow> int \<Rightarrow> route set" where
  "dfs_routes g m dest current pth stps td tp =
     {\<lparr>path = pth @ map destination fls, stops = stps + int (length fls),
       total_distance = td + sum_list (map distance fls),
       total_price = tp + sum_list (map price fls)\<rparr> | fls.
      is_path g current fls dest \<and> distinct (map destination fls)
      \<and> set (map destination fls) \<inter> set pth = {} \<and> stps + int (length fls) \<le> m
      \<and> (fls = [] \<longrightarrow> length pth > 1)}"

text \<open>
  The cost of a path under a criterion, graphs without negative weights, and the
  invariant of the loop of \<open>dijkstra_shortest_path\<close>: every queue entry is the cost and
  the airport sequence of a path from the start; every flight from a visited airport to
  an unvisited one has a queue entry for its destination that costs no more than any
  path to the visited airport followed by the flight; the start is visited or has an
  entry of cost at most 0; the end airport is not visited.
\<close>

definition path_cost :: "string \<Rightarrow> flight list \<Rightarrow> int" where
  "path_cost criteria fls = sum_list (map (edge_cost criteria) fls)"

definition nonneg_weights :: "airport_graph \<Rightarrow> string \<Rightarrow> bool" where
  "nonneg_weights g criteria = (\<forall>a. \<forall>fl \<in> set (flights_from g a). 0 \<le> edge_cost criteria fl)"

definition entry_ok :: "airport_graph \<Rightarrow> string \<Rightarrow> string \<Rightarrow> pq_entry \<Rightarrow> bool" where
  "entry_ok g criteria start e =
     (\<exists>fls. is_path g start fls (fst (snd e)) \<and> snd (snd e) = airports_of start fls
            \<and> fst e = path_cost criteria fls)"

definition dijkstra_inv ::
  "airport_graph \<Rightarrow> string \<Rightarrow> string \<Rightarrow> string \<Rightarrow> pq_entry list \<Rightarrow> string set \<Rightarrow> bool" where
  "dijkstra_inv g criteria start end pq visited =
     ((\<forall>e \<in> set pq. entry_ok g criteria start e)
      \<and> (\<forall>x \<in> visited. \<forall>fls. is_path g start fls x \<longrightarrow>
            (\<forall>fl \<in> set (flights_from g x). destination fl \<notin> visited \<longrightarrow>
               (\<exists>e \<in> set pq. fst (snd e) = destination fl
                    \<and> fst e \<le> path_cost criteria fls + edge_cost criteria fl)))
      \<and> (start \<in> visited \<or> (\<exists>e \<in> set pq. fst (snd e) = start \<and> fst e \<le> 0))
      \<and> end \<notin> visited)"

section \<open>Example data\<close>

text \<open>Three flights with the same departure time, told apart by their ids.\<close>

definition tie_a :: flight where
  "tie_a = Flight ''A'' ''NYC'' ''LAX'' ''09:00'' ''11:00'' 10 1 1"

definition tie_b :: flight where
  "tie_b = Flight ''B'' ''NYC'' ''LAX'' ''09:00'' ''11:00'' 10 1 1"

definition tie_c :: flight where
  "tie_c = Flight ''C'' ''NYC'' ''LAX'' ''09:00'' ''11:00'' 10 1 1"

text \<open>
  The graph with the two flights NYC to CHI (distance 790, price 300) and CHI to LAX
  (distance 1745, price 400) and no other.
\<close>

definition scenario_graph :: airport_graph where
  "scenario_graph =
     add_flight_route
       (add_flight_route AirportGraph (Flight ''FL003'' ''NYC'' ''CHI'' ''09:00'' ''11:30'' 120 300 790))
       (Flight ''FL004'' ''CHI'' ''LAX'' ''13:00'' ''15:30'' 120 400 1745)"

text \<open>
  A system with one flight FL1 of capacity 1 and the registered passengers PA and PB;
  then PA books FL1 (booking B1), and then cancels B1.
\<close>

definition sys0 :: airline_management_system where
  "sys0 = snd (register_passenger
            (snd (register_passenger
               (add_flight AirlineManagementSystem ''FL1'' ''NYC'' ''CHI'' ''09:00'' ''11:30'' 1 300 790)
               ''Ann'' ''ann@email.com'' ''123'' ''PA''))
            ''Bob'' ''bob@email.com'' ''456'' ''PB'')"

definition sys1 :: airline_management_system where
  "sys1 = snd (book_flight sys0 ''PA'' ''FL1'' ''B1'' 0)"

definition sys2 :: airline_management_system where
  "sys2 = snd (cancel_booking sys1 ''B1'')"

text \<open>The flight id FL1 added twice, with different departure times and capacities.\<close>

definition dup0 :: airline_management_system where
  "dup0 = add_flight AirlineManagementSystem ''FL1'' ''NYC'' ''CHI'' ''09:00'' ''11:30'' 1 300 790"

definition dup1 :: airline_management_system where
  "dup1 = add_flight dup0 ''FL1'' ''NYC'' ''CHI'' ''10:00'' ''12:30'' 2 300 790"

text \<open>
  PA holds the seat of FL1 and PB is put on the waiting list (\<open>sysA\<close>); then PA's booking
  is cancelled (\<open>sysA1\<close>). In \<open>sysF0\<close> a third passenger PC is on the waiting list behind
  PB; then PA's booking is cancelled (\<open>sysF1\<close>), and then PB's (\<open>sysF2\<close>).
\<close>

definition sysA :: airline_management_system where
  "sysA = snd (book_flight sys1 ''PB'' ''FL1'' ''B2'' 1)"

definition sysF0 :: airline_management_system where
  "sysF0 = snd (book_flight (snd (register_passenger sysA ''Cy'' ''cy@email.com'' ''789'' ''PC''))
                  ''PC'' ''FL1'' ''B3'' 2)"

definition sysA1 :: airline_management_system where
  "sysA1 = snd (cancel_booking sysA ''B1'')"

definition sysF1 :: airline_management_system where
  "sysF1 = snd (cancel_booking sysF0 ''B1'')"

definition sysF2 :: airline_management_system where
  "sysF2 = snd (cancel_booking sysF1 ''B2'')"

text \<open>
  A run: FL1 of capacity 1 is added, PA and PB register, PA books (confirmed), PB books
  (waitlisted), PA's booking is cancelled (PB is promoted) and cancelled once more. At
  the end FL1 is in the state \<open>demo_flight\<close>.
\<close>

definition demo_ops :: "operation list" where
  "demo_ops =
     [AddFlight ''FL1'' ''NYC'' ''CHI'' ''09:00'' ''11:30'' 1 300 790,
      RegisterPassenger ''Ann'' ''ann@email.com'' ''123'' ''PA'',
      RegisterPassenger ''Bob'' ''bob@email.com'' ''456'' ''PB'',
      BookFlight ''PA'' ''FL1'' ''B1'' 0,
      BookFlight ''PB'' ''FL1'' ''B2'' 1,
      CancelBooking ''B1'',
      CancelBooking ''B1'']"

definition demo_flight :: flight where
  "demo_flight = (Flight ''FL1'' ''NYC'' ''CHI'' ''09:00'' ''11:30'' 1 300 790)
                   \<lparr>booked_seats := 1, passengers := [''PB'']\<rparr>"

section \<open>The flight schedule is ordered by departure time\<close>

lemma set_insert_after: "set (insert_after fl c rest) = insert fl (set (c # rest))"
  by (induction rest arbitrary: c) auto

lemma mset_insert_after: "mset (insert_after fl c rest) = add_mset fl (mset (c # rest))"
  by (induction rest arbitrary: c) auto

lemma sorted_insert_after:
  "sorted (map departure_time (c # rest)) \<Longrightarrow> \<not> departure_time fl < departure_time c
   \<Longrightarrow> sorted (map departure_time (insert_after fl c rest))"
  by (induction rest arbitrary: c) (auto simp: set_insert_after)

text \<open>
  Where the loop links the new flight in: after the flights that follow \<open>current\<close> and
  depart strictly earlier, hence before every later flight with the same departure time.
\<close>

lemma insert_after_position:
  "insert_after fl c rest =
     c # takeWhile (\<lambda>x. departure_time x < departure_time fl) rest
       @ fl # dropWhile (\<lambda>x. departure_time x < departure_time fl) rest"
  by (induction rest arbitrary: c) auto

lemma mset_schedule_add:
  "mset (display_schedule (schedule_add_flight sch fl)) = add_mset fl (mset (display_schedule sch))"
  by (auto simp: schedule_add_flight_def display_schedule_def mset_insert_after split: list.splits)

lemma sorted_schedule_add:
  "sorted (map departure_time (display_schedule sch))
   \<Longrightarrow> sorted (map departure_time (display_schedule (schedule_add_flight sch fl)))"
  unfolding schedule_add_flight_def display_schedule_def
  by (cases "head sch") (auto simp: sorted_insert_after simp del: insert_after.simps)

lemma schedule_foldl:
  "sorted (map departure_time (display_schedule sch)) \<Longrightarrow>
   sorted (map departure_time (display_schedule (foldl schedule_add_flight sch fls)))
   \<and> mset (display_schedule (foldl schedule_add_flight sch fls)) = mset (display_schedule sch) + mset fls"
  by (induction fls arbitrary: sch) (simp_all add: sorted_schedule_add mset_schedule_add)

text \<open>
  C10, as the code has it: after any sequence of \<open>add_flight\<close> calls on a new schedule,
  \<open>display_schedule\<close> lists exactly the flights added, in ascending order of
  \<open>departure_time\<close>. Nothing is said about the order of flights with equal departure
  times.
\<close>

theorem schedule_sorted_by_departure:
  "sorted (map departure_time (display_schedule (schedule_of fls)))
   \<and> mset (display_schedule (schedule_of fls)) = mset fls"
  using schedule_foldl[of FlightSchedule fls]
  by (simp add: schedule_of_def FlightSchedule_def display_schedule_def)

text \<open>
  C10 as stated fails on ties: of three flights A, B, C with the same departure time,
  added in this order, the listing is A, C, B. The comparison with the head is strict
  (\<open>flight.departure_time < self.head.flight.departure_time\<close>), so the head stays first;
  the loop stops at the first later node that does not depart strictly earlier, so C is
  linked in before B.
\<close>

theorem schedule_ties_not_in_insertion_order:
  "map departure_time [tie_a, tie_b, tie_c] = [''09:00'', ''09:00'', ''09:00'']
   \<and> map flight_id (display_schedule (schedule_of [tie_a, tie_b, tie_c])) = [''A'', ''C'', ''B'']"
  by (simp add: schedule_of_def schedule_add_flight_def FlightSchedule_def display_schedule_def
        tie_a_def tie_b_def tie_c_def Flight_def)

section \<open>Routes of the two-flight graph\<close>

lemma scenario_graph_flights:
  "flights_from scenario_graph ''NYC'' = [Flight ''FL003'' ''NYC'' ''CHI'' ''09:00'' ''11:30'' 120 300 790]"
  "flights_from scenario_graph ''CHI'' = [Flight ''FL004'' ''CHI'' ''LAX'' ''13:00'' ''15:30'' 120 400 1745]"
  "flights_from scenario_graph ''LAX'' = []"
  by (simp_all add: scenario_graph_def add_flight_route_def flights_from_def AirportGraph_def
        Flight_def Let_def)

text \<open>
  C7, as the code has it: \<open>stops\<close> counts the flights of a route, so the route from NYC
  over CHI to LAX has two stops. With \<open>max_stops = 0\<close> the result is empty, and with
  \<open>max_stops = 2\<close> it is the one route NYC, CHI, LAX, of distance 2535 and price 700.
\<close>

theorem scenario_routes_by_max_stops:
  "find_all_routes scenario_graph ''NYC'' ''LAX'' 0 = []
   \<and> find_all_routes scenario_graph ''NYC'' ''LAX'' 2 =
       [\<lparr>path = [''NYC'', ''CHI'', ''LAX''], stops = 2, total_distance = 2535, total_price = 700\<rparr>]"
  by (simp add: find_all_routes_def dfs.simps scenario_graph_flights Flight_def)

text \<open>
  C7 as stated fails: with \<open>max_stops = 1\<close> the call of \<open>dfs\<close> at LAX has \<open>stops = 2\<close>,
  which exceeds the bound, so no route is returned.
\<close>

theorem scenario_no_route_with_one_stop:
  "find_all_routes scenario_graph ''NYC'' ''LAX'' 1 = []"
  by (simp add: find_all_routes_def dfs.simps scenario_graph_flights Flight_def)

section \<open>Unknown identifiers\<close>

lemmas sys_defs = sys0_def sys1_def sys2_def register_passenger_def add_flight_def
  AirlineManagementSystem_def book_flight_def cancel_booking_def finish_cancel_def
  promote_next_def Flight_def Passenger_def is_available_def Let_def

text \<open>
  C8: \<open>cancel_booking\<close> with a booking id that is not a key of \<open>bookings\<close> returns \<open>False\<close>
  (its "not found" result) and \<open>book_flight\<close> with a passenger id or a flight id that is
  not a key returns \<open>None\<close>; in each case the state is the one before the call.
\<close>

theorem not_found_changes_nothing:
  "(map_of (sys_bookings s) bid = None \<longrightarrow> cancel_booking s bid = (Inr False, s))
   \<and> (sys_passengers s pid = None \<longrightarrow> book_flight s pid fid bid t = (None, s))
   \<and> (sys_flights s fid = None \<longrightarrow> book_flight s pid fid bid t = (None, s))"
  by (auto simp: cancel_booking_def book_flight_def split: option.splits)

theorem not_found_changes_nothing_witness:
  "map_of (sys_bookings sys0) ''B9'' = None \<and> cancel_booking sys0 ''B9'' = (Inr False, sys0)
   \<and> sys_passengers sys0 ''PX'' = None \<and> book_flight sys0 ''PX'' ''FL1'' ''B9'' 0 = (None, sys0)
   \<and> sys_flights sys0 ''FL9'' = None \<and> book_flight sys0 ''PA'' ''FL9'' ''B1'' 0 = (None, sys0)"
proof -
  have a: "map_of (sys_bookings sys0) ''B9'' = None" by (simp add: sys_defs)
  have b: "sys_passengers sys0 ''PX'' = None" by (simp add: sys_defs)
  have c: "sys_flights sys0 ''FL9'' = None" by (simp add: sys_defs)
  from not_found_changes_nothing[of sys0 "''B9''" "''PX''" "''FL1''" 0] a b
  have 1: "cancel_booking sys0 ''B9'' = (Inr False, sys0)"
    "book_flight sys0 ''PX'' ''FL1'' ''B9'' 0 = (None, sys0)" by blast+
  from not_found_changes_nothing[of sys0 "''B1''" "''PA''" "''FL9''" 0] c
  have 2: "book_flight sys0 ''PA'' ''FL9'' ''B1'' 0 = (None, sys0)" by blast
  show ?thesis using a b c 1 2 by blast
qed

section \<open>Booking and cancelling at once\<close>

lemma map_of_alist_store: "map_of (alist_store k v xs) = (map_of xs)(k \<mapsto> v)"
  by (induction xs) (auto simp: fun_eq_iff)

text \<open>
  C9: when \<open>book_flight\<close> has created a booking on a flight and the waiting list of
  the flight is empty, \<open>cancel_booking\<close> of that booking returns \<open>True\<close> and the flight
  has as many booked seats as before the booking.
\<close>

theorem book_then_cancel_restores_seats:
  assumes "book_flight s pid fid bid t = (Some b, s1)"
      and "map_option waiting_list (sys_flights s1 fid) = Some []"
  shows "\<exists>s2. cancel_booking s1 b = (Inr True, s2)
           \<and> map_option booked_seats (sys_flights s2 fid) = map_option booked_seats (sys_flights s fid)"
proof -
  from assms(1) obtain psg fl where p: "sys_passengers s pid = Some psg" and f: "sys_flights s fid = Some fl"
    by (auto simp: book_flight_def split: option.splits)
  show ?thesis
  proof (cases "is_available fl")
    case True
    with assms(1) p f have b: "b = bid" and s1: "s1 = s\<lparr>sys_bookings := alist_store bid
                          \<lparr>booking_id = bid, b_passenger_id = pid, b_flight_id = fid,
                           booking_time = t, status = CONFIRMED\<rparr> (sys_bookings s),
                       sys_flights := (sys_flights s)(fid \<mapsto>
                          fl\<lparr>booked_seats := booked_seats fl + 1,
                             passengers := passengers fl @ [pid]\<rparr>),
                       sys_passengers := (sys_passengers s)(pid \<mapsto>
                          psg\<lparr>bookings := bookings psg @ [bid]\<rparr>)\<rparr>"
      by (auto simp: book_flight_def)
    from assms(2) have w: "waiting_list fl = []" unfolding s1 by simp
    show ?thesis unfolding b s1 using w f
      by (simp add: cancel_booking_def map_of_alist_store promote_next_def finish_cancel_def Let_def)
  next
    case False
    with assms(1) p f have s1: "sys_flights s1 fid = Some (fl\<lparr>waiting_list := waiting_list fl @ [pid]\<rparr>)"
      by (auto simp: book_flight_def)
    with assms(2) show ?thesis by simp
  qed
qed

theorem book_then_cancel_restores_seats_witness:
  "book_flight sys0 ''PA'' ''FL1'' ''B1'' 0 = (Some ''B1'', sys1)
   \<and> map_option waiting_list (sys_flights sys1 ''FL1'') = Some []
   \<and> (\<exists>s2. cancel_booking sys1 ''B1'' = (Inr True, s2)
           \<and> map_option booked_seats (sys_flights s2 ''FL1'') = map_option booked_seats (sys_flights sys0 ''FL1''))"
proof -
  have a: "book_flight sys0 ''PA'' ''FL1'' ''B1'' 0 = (Some ''B1'', sys1)"
    by (simp add: sys_defs)
  have b: "map_option waiting_list (sys_flights sys1 ''FL1'') = Some []"
    by (simp add: sys_defs)
  from book_then_cancel_restores_seats[OF a b] a b show ?thesis by blast
qed

section \<open>Cancelling a cancelled booking\<close>

text \<open>
  C5 at a concrete input. In \<open>sys2\<close> the booking B1 is CANCELLED. A second
  \<open>cancel_booking\<close> of B1 takes neither the CONFIRMED nor the WAITLISTED branch, assigns
  CANCELLED again, and \<open>passenger.bookings.remove\<close> raises \<open>ValueError\<close>, since the first
  cancellation has removed B1 from that list. The call does not return a failure result;
  the state is unchanged.
\<close>

theorem second_cancel_raises_value_error:
  "map_option status (map_of (sys_bookings sys2) ''B1'') = Some CANCELLED
   \<and> cancel_booking sys2 ''B1'' = (Inl ValueError, sys2)"
  by (simp add: sys_defs)

section \<open>Adding a flight under an id that is present\<close>

text \<open>
  C6, as the code has it: \<open>add_flight\<close> has no failure result and does not look the id up.
  The flight map gets the new flight under the id (replacing a flight stored there), the
  schedule gains the new flight, and the graph gets it appended to the flights of its
  origin.
\<close>

theorem add_flight_stores_and_inserts:
  "sys_flights (add_flight s fid orig dest dep arr cap pr dist)
     = (sys_flights s)(fid \<mapsto> Flight fid orig dest dep arr cap pr dist)
   \<and> mset (display_schedule (flight_schedule (add_flight s fid orig dest dep arr cap pr dist)))
     = add_mset (Flight fid orig dest dep arr cap pr dist) (mset (display_schedule (flight_schedule s)))
   \<and> flights_from (airport_graph (add_flight s fid orig dest dep arr cap pr dist)) orig
     = flights_from (airport_graph s) orig @ [Flight fid orig dest dep arr cap pr dist]"
  by (simp add: add_flight_def Let_def mset_schedule_add add_flight_route_def flights_from_def Flight_def)

text \<open>
  C6 as stated fails: adding FL1 a second time replaces the flight of capacity 1 in the
  map by the one of capacity 2, and the schedule and the flights from NYC in the graph
  then hold two flights with the id FL1.
\<close>

theorem add_flight_duplicate_changes_state:
  "map_option capacity (sys_flights dup0 ''FL1'') = Some 1
   \<and> map_option capacity (sys_flights dup1 ''FL1'') = Some 2
   \<and> map flight_id (display_schedule (flight_schedule dup0)) = [''FL1'']
   \<and> map flight_id (display_schedule (flight_schedule dup1)) = [''FL1'', ''FL1'']
   \<and> map flight_id (flights_from (airport_graph dup0) ''NYC'') = [''FL1'']
   \<and> map flight_id (flights_from (airport_graph dup1) ''NYC'') = [''FL1'', ''FL1'']"
  by (simp add: dup0_def dup1_def sys_defs schedule_add_flight_def FlightSchedule_def
        display_schedule_def add_flight_route_def flights_from_def AirportGraph_def)

section \<open>Promotion from the waiting list\<close>

lemma confirm_waitlisted_Some:
  assumes "filter (waitlisted_for pid fid) bks = (k, b) # others" "distinct (map fst bks)"
  shows "\<exists>bks'. confirm_waitlisted pid fid bks = Some bks'
             \<and> map_of bks' = (map_of bks)(k \<mapsto> b\<lparr>status := CONFIRMED\<rparr>)
             \<and> map fst bks' = map fst bks"
  using assms
proof (induction bks)
  case Nil then show ?case by simp
next
  case (Cons kb bks)
  obtain k' b' where kb: "kb = (k', b')" by (cases kb)
  show ?case
  proof (cases "waitlisted_for pid fid kb")
    case True
    with Cons.prems kb have "k' = k" "b' = b" by auto
    with True kb show ?thesis by (auto simp: waitlisted_for_def)
  next
    case False
    with Cons.prems have f: "filter (waitlisted_for pid fid) bks = (k, b) # others" and d: "distinct (map fst bks)"
      by auto
    from Cons.IH[OF f d] obtain bks' where r: "confirm_waitlisted pid fid bks = Some bks'"
      "map_of bks' = (map_of bks)(k \<mapsto> b\<lparr>status := CONFIRMED\<rparr>)" "map fst bks' = map fst bks" by blast
    have "(k, b) \<in> set (filter (waitlisted_for pid fid) bks)" unfolding f by simp
    then have "k \<in> fst ` set bks" by force
    with Cons.prems(2) kb have "k' \<noteq> k" by auto
    with False kb r show ?thesis by (auto simp: waitlisted_for_def fun_eq_iff)
  qed
qed

lemma set_status_map_of:
  "map_of bks bid = Some b \<Longrightarrow> map_of (set_status bid st bks) = (map_of bks)(bid \<mapsto> b\<lparr>status := st\<rparr>)"
  by (induction bks) (auto simp: fun_eq_iff)

lemma promotion_general:
  assumes bk: "map_of (sys_bookings s) bid = Some bk" "status bk = CONFIRMED"
      and fl: "sys_flights s (b_flight_id bk) = Some fl"
      and psg: "sys_passengers s (b_passenger_id bk) = Some psg"
      and seat: "b_passenger_id bk \<in> set (passengers fl)"
      and own: "bid \<in> set (bookings psg)"
      and wl: "waiting_list fl = h # rest"
      and dist: "distinct (map fst (sys_bookings s))"
      and one: "filter (waitlisted_for h (b_flight_id bk)) (sys_bookings s) = [(wbid, wb)]"
  shows "\<exists>s'. cancel_booking s bid = (Inr True, s')
           \<and> sys_flights s' = (sys_flights s)(b_flight_id bk \<mapsto>
                 fl\<lparr>passengers := remove1 (b_passenger_id bk) (passengers fl) @ [h],
                    waiting_list := rest\<rparr>)
           \<and> map_of (sys_bookings s') = (map_of (sys_bookings s))
                 (wbid \<mapsto> wb\<lparr>status := CONFIRMED\<rparr>, bid \<mapsto> bk\<lparr>status := CANCELLED\<rparr>)"
proof -
  from confirm_waitlisted_Some[OF one dist] obtain bks' where
    c: "confirm_waitlisted h (b_flight_id bk) (sys_bookings s) = Some bks'"
    and m: "map_of bks' = (map_of (sys_bookings s))(wbid \<mapsto> wb\<lparr>status := CONFIRMED\<rparr>)" by blast
  have "(wbid, wb) \<in> set (filter (waitlisted_for h (b_flight_id bk)) (sys_bookings s))" unfolding one by simp
  then have in_bks: "(wbid, wb) \<in> set (sys_bookings s)" and w: "status wb = WAITLISTED"
    by (auto simp: waitlisted_for_def)
  from in_bks dist have "map_of (sys_bookings s) wbid = Some wb" by simp
  with bk w have ne: "wbid \<noteq> bid" by auto
  with m bk have mb: "map_of bks' bid = Some bk" by simp
  have fleq: "fl\<lparr>waiting_list := rest, passengers := ps\<rparr>
        = fl\<lparr>passengers := ps, waiting_list := rest\<rparr>" for ps by (cases fl) simp
  show ?thesis
    using bk fl psg seat own wl c ne
    by (simp add: cancel_booking_def promote_next_def finish_cancel_def Let_def
          set_status_map_of[OF mb] m fun_upd_twist fleq)
qed


lemma book_full_appends:
  assumes "sys_passengers s pid = Some psg" "sys_flights s fid = Some fl" "\<not> is_available fl"
  shows "\<exists>s'. book_flight s pid fid bid t = (Some bid, s')
          \<and> sys_flights s' = (sys_flights s)(fid \<mapsto> fl\<lparr>waiting_list := waiting_list fl @ [pid]\<rparr>)
          \<and> map_option status (map_of (sys_bookings s') bid) = Some WAITLISTED"
  using assms by (simp add: book_flight_def map_of_alist_store)

lemmas scen_defs = sysA_def sysF0_def sysA1_def sysF1_def sysF2_def sys_defs waitlisted_for_def

lemma sysA_facts:
  "map_of (sys_bookings sysA) ''B1'' = Some \<lparr>booking_id = ''B1'', b_passenger_id = ''PA'', b_flight_id = ''FL1'', booking_time = 0, status = CONFIRMED\<rparr>"
  "map_option waiting_list (sys_flights sysA ''FL1'') = Some [''PB'']"
  "map_option passengers (sys_flights sysA ''FL1'') = Some [''PA'']"
  "map_option booked_seats (sys_flights sysA ''FL1'') = Some 1"
  "map_option bookings (sys_passengers sysA ''PA'') = Some [''B1'']"
  "distinct (map fst (sys_bookings sysA))"
  "filter (waitlisted_for ''PB'' ''FL1'') (sys_bookings sysA) = [(''B2'', \<lparr>booking_id = ''B2'', b_passenger_id = ''PB'', b_flight_id = ''FL1'', booking_time = 1, status = WAITLISTED\<rparr>)]"
  by (simp_all add: scen_defs)


text \<open>
  C2. First part: \<open>cancel_booking\<close> of a CONFIRMED booking whose passenger is on the
  passenger list of the flight, when the waiting list is \<open>h # rest\<close> and exactly one
  booking \<open>wbid\<close> of \<open>h\<close> for the flight is WAITLISTED, returns \<open>True\<close>; the waiting list
  becomes \<open>rest\<close>, \<open>h\<close> joins the passenger list in place of the cancelled passenger,
  \<open>booked_seats\<close> and every other field of the flight are as before, booking \<open>wbid\<close> is
  CONFIRMED, the cancelled booking is CANCELLED and no other booking changes. Only the
  head of the waiting list needs a unique waitlisted booking. Second part:
  \<open>book_flight\<close> on a flight without a free seat creates a WAITLISTED booking and puts
  the passenger at the tail of the waiting list. Together: first in, first promoted.
\<close>

theorem cancel_confirmed_promotes_waitlist_head:
  "(map_of (sys_bookings s) bid = Some bk \<and> status bk = CONFIRMED
      \<and> sys_flights s (b_flight_id bk) = Some fl
      \<and> sys_passengers s (b_passenger_id bk) = Some psg
      \<and> b_passenger_id bk \<in> set (passengers fl) \<and> bid \<in> set (bookings psg)
      \<and> waiting_list fl = h # rest
      \<and> distinct (map fst (sys_bookings s))
      \<and> filter (waitlisted_for h (b_flight_id bk)) (sys_bookings s) = [(wbid, wb)]
    \<longrightarrow> (\<exists>s'. cancel_booking s bid = (Inr True, s')
           \<and> sys_flights s' = (sys_flights s)(b_flight_id bk \<mapsto>
                 fl\<lparr>passengers := remove1 (b_passenger_id bk) (passengers fl) @ [h],
                    waiting_list := rest\<rparr>)
           \<and> map_of (sys_bookings s') = (map_of (sys_bookings s))
                 (wbid \<mapsto> wb\<lparr>status := CONFIRMED\<rparr>, bid \<mapsto> bk\<lparr>status := CANCELLED\<rparr>)))
   \<and> (sys_passengers s pid = Some psg' \<and> sys_flights s fid = Some fl' \<and> \<not> is_available fl'
    \<longrightarrow> (\<exists>s'. book_flight s pid fid nbid t = (Some nbid, s')
          \<and> sys_flights s' = (sys_flights s)(fid \<mapsto> fl'\<lparr>waiting_list := waiting_list fl' @ [pid]\<rparr>)
          \<and> map_option status (map_of (sys_bookings s') nbid) = Some WAITLISTED))"
  using promotion_general[of s bid bk fl psg h rest wbid wb] book_full_appends[of s pid psg' fid fl' nbid t]
  by blast

text \<open>
  The theorem at the scenario of C2: capacity 1, PA books (CONFIRMED, one seat booked),
  PB books (WAITLISTED, waiting list PB), PA's booking is cancelled: it is CANCELLED,
  PB's is CONFIRMED, one seat is booked and the waiting list is empty. With PC waitlisted
  after PB, the first cancellation seats PB and leaves PC waiting, the next seats PC.
\<close>

theorem cancel_confirmed_promotes_waitlist_head_witness:
  "book_flight sys0 ''PA'' ''FL1'' ''B1'' 0 = (Some ''B1'', sys1)
   \<and> map_option status (map_of (sys_bookings sys1) ''B1'') = Some CONFIRMED
   \<and> map_option booked_seats (sys_flights sys1 ''FL1'') = Some 1
   \<and> book_flight sys1 ''PB'' ''FL1'' ''B2'' 1 = (Some ''B2'', sysA)
   \<and> map_option status (map_of (sys_bookings sysA) ''B2'') = Some WAITLISTED
   \<and> map_option waiting_list (sys_flights sysA ''FL1'') = Some [''PB'']
   \<and> cancel_booking sysA ''B1'' = (Inr True, sysA1)
   \<and> map_option status (map_of (sys_bookings sysA1) ''B1'') = Some CANCELLED
   \<and> map_option status (map_of (sys_bookings sysA1) ''B2'') = Some CONFIRMED
   \<and> map_option booked_seats (sys_flights sysA1 ''FL1'') = Some 1
   \<and> map_option waiting_list (sys_flights sysA1 ''FL1'') = Some []
   \<and> map_option waiting_list (sys_flights sysF0 ''FL1'') = Some [''PB'', ''PC'']
   \<and> cancel_booking sysF0 ''B1'' = (Inr True, sysF1)
   \<and> map_option passengers (sys_flights sysF1 ''FL1'') = Some [''PB'']
   \<and> map_option waiting_list (sys_flights sysF1 ''FL1'') = Some [''PC'']
   \<and> cancel_booking sysF1 ''B2'' = (Inr True, sysF2)
   \<and> map_option passengers (sys_flights sysF2 ''FL1'') = Some [''PC'']
   \<and> map_option waiting_list (sys_flights sysF2 ''FL1'') = Some []"
proof -
  let ?b1 = "\<lparr>booking_id = ''B1'', b_passenger_id = ''PA'', b_flight_id = ''FL1'',
              booking_time = 0, status = CONFIRMED\<rparr>"
  let ?b2 = "\<lparr>booking_id = ''B2'', b_passenger_id = ''PB'', b_flight_id = ''FL1'',
              booking_time = 1, status = WAITLISTED\<rparr>"
  let ?fl = "(Flight ''FL1'' ''NYC'' ''CHI'' ''09:00'' ''11:30'' 1 300 790)
              \<lparr>booked_seats := 1, passengers := [''PA''], waiting_list := [''PB'']\<rparr>"
  let ?psg = "(Passenger ''PA'' ''Ann'' ''ann@email.com'' ''123'')\<lparr>bookings := [''B1'']\<rparr>"
  have pre:
    "map_of (sys_bookings sysA) ''B1'' = Some ?b1" "status ?b1 = CONFIRMED"
    "sys_flights sysA (b_flight_id ?b1) = Some ?fl"
    "sys_passengers sysA (b_passenger_id ?b1) = Some ?psg"
    "b_passenger_id ?b1 \<in> set (passengers ?fl)" "''B1'' \<in> set (bookings ?psg)"
    "waiting_list ?fl = ''PB'' # []"
    "distinct (map fst (sys_bookings sysA))"
    "filter (waitlisted_for ''PB'' (b_flight_id ?b1)) (sys_bookings sysA) = [(''B2'', ?b2)]"
    by (simp_all add: scen_defs)
  from cancel_confirmed_promotes_waitlist_head[of sysA "''B1''" ?b1 ?fl ?psg "''PB''" "[]" "''B2''" ?b2] pre
  obtain s' where s': "cancel_booking sysA ''B1'' = (Inr True, s')"
    "sys_flights s' = (sys_flights sysA)(b_flight_id ?b1 \<mapsto>
        ?fl\<lparr>passengers := remove1 (b_passenger_id ?b1) (passengers ?fl) @ [''PB''], waiting_list := []\<rparr>)"
    "map_of (sys_bookings s') = (map_of (sys_bookings sysA))
        (''B2'' \<mapsto> ?b2\<lparr>status := CONFIRMED\<rparr>, ''B1'' \<mapsto> ?b1\<lparr>status := CANCELLED\<rparr>)"
    by blast
  from s'(1) have eq: "sysA1 = s'" by (simp add: sysA1_def)
  have a: "cancel_booking sysA ''B1'' = (Inr True, sysA1)"
    "map_option status (map_of (sys_bookings sysA1) ''B1'') = Some CANCELLED"
    "map_option status (map_of (sys_bookings sysA1) ''B2'') = Some CONFIRMED"
    "map_option booked_seats (sys_flights sysA1 ''FL1'') = Some 1"
    "map_option waiting_list (sys_flights sysA1 ''FL1'') = Some []"
    unfolding eq using s' by (simp_all add: Flight_def)
  have b: "book_flight sys0 ''PA'' ''FL1'' ''B1'' 0 = (Some ''B1'', sys1)"
   "map_option status (map_of (sys_bookings sys1) ''B1'') = Some CONFIRMED"
   "map_option booked_seats (sys_flights sys1 ''FL1'') = Some 1"
   "book_flight sys1 ''PB'' ''FL1'' ''B2'' 1 = (Some ''B2'', sysA)"
   "map_option status (map_of (sys_bookings sysA) ''B2'') = Some WAITLISTED"
   "map_option waiting_list (sys_flights sysA ''FL1'') = Some [''PB'']"
    by (simp_all add: scen_defs)
  have c: "map_option waiting_list (sys_flights sysF0 ''FL1'') = Some [''PB'', ''PC'']"
   "cancel_booking sysF0 ''B1'' = (Inr True, sysF1)"
   "map_option passengers (sys_flights sysF1 ''FL1'') = Some [''PB'']"
   "map_option waiting_list (sys_flights sysF1 ''FL1'') = Some [''PC'']"
    by (simp_all add: scen_defs)
  have d: "cancel_booking sysF1 ''B2'' = (Inr True, sysF2)"
   "map_option passengers (sys_flights sysF2 ''FL1'') = Some [''PC'']"
   "map_option waiting_list (sys_flights sysF2 ''FL1'') = Some []"
    by (simp_all add: scen_defs)
  show ?thesis using a b c d by simp
qed


section \<open>The seat counter, the passenger list and the capacity\<close>

lemma filter_alist_store_le:
  "length (filter P (alist_store k v xs)) \<le> length (filter P xs) + (if P (k, v) then 1 else 0)"
  by (induction xs) auto

lemma filter_set_status_le:
  "length (filter (confirmed_by pid fid) (set_status bid CANCELLED xs))
     \<le> length (filter (confirmed_by pid fid) xs)"
  by (induction xs) (auto simp: confirmed_by_def)

lemma filter_set_status_dec:
  "map_of xs bid = Some bk \<Longrightarrow> confirmed_by pid fid (bid, bk) \<Longrightarrow>
   Suc (length (filter (confirmed_by pid fid) (set_status bid CANCELLED xs)))
     = length (filter (confirmed_by pid fid) xs)"
  by (induction xs) (auto simp: confirmed_by_def split: if_splits)

lemma filter_confirm_waitlisted:
  "confirm_waitlisted h fid xs = Some xs' \<Longrightarrow>
   length (filter (confirmed_by p f) xs')
     = length (filter (confirmed_by p f) xs) + (if p = h \<and> f = fid then 1 else 0)"
  by (induction xs arbitrary: xs') (auto simp: confirmed_by_def split: if_splits)

lemma map_of_confirm_waitlisted:
  "confirm_waitlisted h fid xs = Some xs' \<Longrightarrow> map_of xs bid = Some bk \<Longrightarrow> status bk \<noteq> WAITLISTED
   \<Longrightarrow> map_of xs' bid = Some bk"
  by (induction xs arbitrary: xs') (auto split: if_splits)

lemma filter_ge_1:
  "map_of xs bid = Some bk \<Longrightarrow> P (bid, bk) \<Longrightarrow> 1 \<le> length (filter P xs)"
  by (induction xs) (auto split: if_splits)

lemma count_list_remove1:
  "count_list (remove1 x xs) y = (if x = y then count_list xs y - 1 else count_list xs y)"
  by (induction xs) auto

lemma count_list_snoc: "count_list (xs @ [h]) y = count_list xs y + (if h = y then 1 else 0)"
  by (induction xs) auto

lemma count_list_pos_mem: "0 < count_list xs x \<Longrightarrow> x \<in> set xs"
  by (induction xs) (auto split: if_splits)

lemma flight_ok_mono:
  "flight_ok bks fid fl \<Longrightarrow>
   (\<And>pid. length (filter (confirmed_by pid fid) bks') \<le> length (filter (confirmed_by pid fid) bks))
   \<Longrightarrow> flight_ok bks' fid fl"
  unfolding flight_ok_def by (meson order_trans)

lemma flight_ok_waiting: "flight_ok bks fid (fl\<lparr>waiting_list := w\<rparr>) = flight_ok bks fid fl"
  by (simp add: flight_ok_def)


lemma promote_next_cases:
  assumes "promote_next fid fl2 bks0 = (fl3, bks)"
  shows "(bks = bks0 \<and> booked_seats fl3 = booked_seats fl2 \<and> passengers fl3 = passengers fl2
            \<and> capacity fl3 = capacity fl2)
         \<or> (\<exists>h. confirm_waitlisted h fid bks0 = Some bks \<and> booked_seats fl3 = booked_seats fl2 + 1
            \<and> passengers fl3 = passengers fl2 @ [h] \<and> capacity fl3 = capacity fl2)"
  using assms by (auto simp: promote_next_def Let_def split: list.splits option.splits)

lemma cancel_confirmed_ok:
  assumes ok: "flight_ok bks0 fid fl"
      and bk: "map_of bks0 bid = Some bk" "confirmed_by pid fid (bid, bk)"
      and pr: "promote_next fid (fl\<lparr>booked_seats := booked_seats fl - 1,
                  passengers := remove1 pid (passengers fl)\<rparr>) bks0 = (fl3, bks)"
  shows "flight_ok (set_status bid CANCELLED bks) fid fl3"
proof -
  let ?ps = "passengers fl"
  let ?cnt = "\<lambda>xs p. length (filter (confirmed_by p fid) xs)"
  from ok have b: "booked_seats fl = int (length ?ps)" and c: "booked_seats fl \<le> capacity fl"
    and cnt: "\<And>p. ?cnt bks0 p \<le> count_list ?ps p" by (auto simp: flight_ok_def)
  from filter_ge_1[of bks0 bid bk "confirmed_by pid fid"] bk have ge1: "1 \<le> ?cnt bks0 pid" by simp
  with cnt[of pid] have pos: "0 < count_list ?ps pid" by linarith
  then have mem: "pid \<in> set ?ps" by (rule count_list_pos_mem)
  then have "Suc 0 \<le> length ?ps" by (cases ?ps) auto
  then have "int (length ?ps - Suc 0) = int (length ?ps) - 1" by linarith
  with mem have len: "int (length (remove1 pid ?ps)) = int (length ?ps) - 1"
    by (simp add: length_remove1)
  from promote_next_cases[OF pr] show ?thesis
  proof (elim disjE exE conjE)
    assume h: "bks = bks0" "booked_seats fl3 = booked_seats (fl\<lparr>booked_seats := booked_seats fl - 1,
                  passengers := remove1 pid (passengers fl)\<rparr>)"
       "passengers fl3 = passengers (fl\<lparr>booked_seats := booked_seats fl - 1,
                  passengers := remove1 pid (passengers fl)\<rparr>)"
       "capacity fl3 = capacity (fl\<lparr>booked_seats := booked_seats fl - 1,
                  passengers := remove1 pid (passengers fl)\<rparr>)"
    have "?cnt (set_status bid CANCELLED bks) p \<le> count_list (passengers fl3) p" for p
    proof (cases "p = pid")
      case True
      from filter_set_status_dec[OF bk(1), of pid fid] bk(2)
      have "Suc (?cnt (set_status bid CANCELLED bks0) pid) = ?cnt bks0 pid" by simp
      with cnt[of pid] True h show ?thesis by (simp add: count_list_remove1)
    next
      case False
      from filter_set_status_le[of p fid bid bks0] cnt[of p] False h show ?thesis
        by (simp add: count_list_remove1)
    qed
    with h b c len show ?thesis by (simp add: flight_ok_def)
  next
    fix h
    assume h: "confirm_waitlisted h fid bks0 = Some bks"
       "booked_seats fl3 = booked_seats (fl\<lparr>booked_seats := booked_seats fl - 1,
                  passengers := remove1 pid (passengers fl)\<rparr>) + 1"
       "passengers fl3 = passengers (fl\<lparr>booked_seats := booked_seats fl - 1,
                  passengers := remove1 pid (passengers fl)\<rparr>) @ [h]"
       "capacity fl3 = capacity (fl\<lparr>booked_seats := booked_seats fl - 1,
                  passengers := remove1 pid (passengers fl)\<rparr>)"
    from bk(2) have "status bk \<noteq> WAITLISTED" by (simp add: confirmed_by_def)
    from map_of_confirm_waitlisted[OF h(1) bk(1) this] have bk': "map_of bks bid = Some bk" .
    have f: "?cnt bks p = ?cnt bks0 p + (if p = h then 1 else 0)" for p
      using filter_confirm_waitlisted[OF h(1), of p fid] by simp
    have "?cnt (set_status bid CANCELLED bks) p \<le> count_list (passengers fl3) p" for p
    proof (cases "p = pid")
      case True
      from filter_set_status_dec[OF bk', of pid fid] bk(2)
      have "Suc (?cnt (set_status bid CANCELLED bks) pid) = ?cnt bks pid" by simp
      with cnt[of pid] True h f[of pid] pos show ?thesis
        by (simp add: count_list_remove1 count_list_snoc split: if_splits)
    next
      case False
      from filter_set_status_le[of p fid bid bks] cnt[of p] False h f[of p] show ?thesis
        by (simp add: count_list_remove1 count_list_snoc split: if_splits)
    qed
    with h b c len show ?thesis by (simp add: flight_ok_def)
  qed
qed

lemma promote_next_other:
  assumes "promote_next fid fl2 bks0 = (fl3, bks)" "fid' \<noteq> fid"
  shows "length (filter (confirmed_by p fid') bks) = length (filter (confirmed_by p fid') bks0)"
  using promote_next_cases[OF assms(1)] assms(2) filter_confirm_waitlisted[of _ fid bks0 bks p fid']
  by auto

lemma finish_cancel_state:
  "sys_flights (snd (finish_cancel t bid bk psg)) = sys_flights t"
  "sys_bookings (snd (finish_cancel t bid bk psg)) = set_status bid CANCELLED (sys_bookings t)"
  by (simp_all add: finish_cancel_def Let_def)

lemma ledger_inv_finish:
  "ledger_inv s \<Longrightarrow> ledger_inv (snd (finish_cancel s bid bk psg))"
  unfolding ledger_inv_def finish_cancel_state
  using filter_set_status_le flight_ok_mono by blast

lemma ledger_inv_cancel:
  assumes inv: "ledger_inv s"
  shows "ledger_inv (snd (cancel_booking s bid))"
proof (cases "map_of (sys_bookings s) bid")
  case None with inv show ?thesis by (simp add: cancel_booking_def)
next
  case (Some bk)
  show ?thesis
  proof (cases "sys_flights s (b_flight_id bk)")
    case None with Some inv show ?thesis by (simp add: cancel_booking_def)
  next
    case fl: (Some fl)
    show ?thesis
    proof (cases "sys_passengers s (b_passenger_id bk)")
      case None with Some fl inv show ?thesis by (simp add: cancel_booking_def)
    next
      case psg: (Some psg)
      let ?fid = "b_flight_id bk" and ?pid = "b_passenger_id bk"
      from inv fl have ok: "flight_ok (sys_bookings s) ?fid fl" by (simp add: ledger_inv_def)
      show ?thesis
      proof (cases "status bk")
        case CONFIRMED
        then have cb: "confirmed_by ?pid ?fid (bid, bk)" by (simp add: confirmed_by_def)
        from filter_ge_1[of "sys_bookings s" bid bk "confirmed_by ?pid ?fid"] Some cb
        have "1 \<le> length (filter (confirmed_by ?pid ?fid) (sys_bookings s))" by simp
        moreover from ok have "length (filter (confirmed_by ?pid ?fid) (sys_bookings s))
            \<le> count_list (passengers fl) ?pid" by (simp add: flight_ok_def)
        ultimately have "0 < count_list (passengers fl) ?pid" by linarith
        then have mem: "?pid \<in> set (passengers fl)" by (rule count_list_pos_mem)
        obtain fl3 bks where pr: "promote_next ?fid (fl\<lparr>booked_seats := booked_seats fl - 1,
                  passengers := remove1 ?pid (passengers fl)\<rparr>) (sys_bookings s) = (fl3, bks)"
          by (cases "promote_next ?fid (fl\<lparr>booked_seats := booked_seats fl - 1,
                  passengers := remove1 ?pid (passengers fl)\<rparr>) (sys_bookings s)")
        let ?t = "s\<lparr>sys_flights := (sys_flights s)(?fid \<mapsto> fl3), sys_bookings := bks\<rparr>"
        have res: "cancel_booking s bid = finish_cancel ?t bid bk psg"
          using Some fl psg CONFIRMED mem pr by (simp add: cancel_booking_def Let_def)
        have "flight_ok (set_status bid CANCELLED bks) fid' fl'"
          if "sys_flights ?t fid' = Some fl'" for fid' fl'
        proof (cases "fid' = ?fid")
          case True
          with that have "fl' = fl3" by simp
          with cancel_confirmed_ok[OF ok Some cb pr] True show ?thesis by simp
        next
          case False
          with that have "sys_flights s fid' = Some fl'" by simp
          with inv have ok': "flight_ok (sys_bookings s) fid' fl'" by (simp add: ledger_inv_def)
          show ?thesis
          proof (rule flight_ok_mono[OF ok'])
            fix p
            from promote_next_other[OF pr False, of p] filter_set_status_le[of p fid' bid bks]
            show "length (filter (confirmed_by p fid') (set_status bid CANCELLED bks))
                    \<le> length (filter (confirmed_by p fid') (sys_bookings s))" by simp
          qed
        qed
        then show ?thesis unfolding res ledger_inv_def finish_cancel_state by simp
      next
        case WAITLISTED
        let ?t = "s\<lparr>sys_flights := (sys_flights s)(?fid \<mapsto>
                    fl\<lparr>waiting_list := remove1 ?pid (waiting_list fl)\<rparr>)\<rparr>"
        have res: "cancel_booking s bid = finish_cancel ?t bid bk psg"
          using Some fl psg WAITLISTED by (simp add: cancel_booking_def)
        have "ledger_inv ?t" using inv ok
          by (auto simp: ledger_inv_def flight_ok_waiting)
        then show ?thesis unfolding res by (rule ledger_inv_finish)
      next
        case CANCELLED
        have res: "cancel_booking s bid = finish_cancel s bid bk psg"
          using Some fl psg CANCELLED by (simp add: cancel_booking_def)
        show ?thesis unfolding res using inv by (rule ledger_inv_finish)
      qed
    qed
  qed
qed


lemma ledger_inv_book:
  assumes inv: "ledger_inv s"
  shows "ledger_inv (snd (book_flight s pid fid bid t))"
proof (cases "sys_passengers s pid")
  case None with inv show ?thesis by (simp add: book_flight_def)
next
  case psg: (Some psg)
  show ?thesis
  proof (cases "sys_flights s fid")
    case None with psg inv show ?thesis by (simp add: book_flight_def)
  next
    case fl: (Some fl)
    from inv fl have ok: "flight_ok (sys_bookings s) fid fl" by (simp add: ledger_inv_def)
    show ?thesis
    proof (cases "is_available fl")
      case True
      let ?bk = "\<lparr>booking_id = bid, b_passenger_id = pid, b_flight_id = fid,
                  booking_time = t, status = CONFIRMED\<rparr>"
      let ?bks = "alist_store bid ?bk (sys_bookings s)"
      let ?fl = "fl\<lparr>booked_seats := booked_seats fl + 1, passengers := passengers fl @ [pid]\<rparr>"
      have st: "sys_bookings (snd (book_flight s pid fid bid t)) = ?bks"
        "sys_flights (snd (book_flight s pid fid bid t)) = (sys_flights s)(fid \<mapsto> ?fl)"
        using psg fl True by (simp_all add: book_flight_def)
      have le: "length (filter (confirmed_by p f) ?bks)
          \<le> length (filter (confirmed_by p f) (sys_bookings s)) + (if p = pid \<and> f = fid then 1 else 0)" for p f
        using filter_alist_store_le[of "confirmed_by p f" bid ?bk "sys_bookings s"]
        by (auto simp: confirmed_by_def)
      have new: "flight_ok ?bks fid ?fl"
        unfolding flight_ok_def
      proof (intro conjI allI)
        from ok show "booked_seats ?fl = int (length (passengers ?fl))" by (simp add: flight_ok_def)
        from True show "booked_seats ?fl \<le> capacity ?fl" by (simp add: is_available_def)
        fix p
        from ok have "length (filter (confirmed_by p fid) (sys_bookings s)) \<le> count_list (passengers fl) p"
          by (simp add: flight_ok_def)
        with le[of p fid] show "length (filter (confirmed_by p fid) ?bks) \<le> count_list (passengers ?fl) p"
          by (simp add: count_list_snoc split: if_splits)
      qed
      have "flight_ok ?bks fid' fl'" if "((sys_flights s)(fid \<mapsto> ?fl)) fid' = Some fl'" for fid' fl'
      proof (cases "fid' = fid")
        case True with that new show ?thesis by simp
      next
        case False
        with that inv have ok': "flight_ok (sys_bookings s) fid' fl'" by (simp add: ledger_inv_def)
        show ?thesis by (rule flight_ok_mono[OF ok']) (use le[of _ fid'] False in simp)
      qed
      then show ?thesis unfolding ledger_inv_def st by blast
    next
      case False
      let ?bk = "\<lparr>booking_id = bid, b_passenger_id = pid, b_flight_id = fid,
                  booking_time = t, status = WAITLISTED\<rparr>"
      let ?bks = "alist_store bid ?bk (sys_bookings s)"
      let ?fl = "fl\<lparr>waiting_list := waiting_list fl @ [pid]\<rparr>"
      have st: "sys_bookings (snd (book_flight s pid fid bid t)) = ?bks"
        "sys_flights (snd (book_flight s pid fid bid t)) = (sys_flights s)(fid \<mapsto> ?fl)"
        using psg fl False by (simp_all add: book_flight_def)
      have le: "length (filter (confirmed_by p f) ?bks)
          \<le> length (filter (confirmed_by p f) (sys_bookings s))" for p f
        using filter_alist_store_le[of "confirmed_by p f" bid ?bk "sys_bookings s"]
        by (auto simp: confirmed_by_def)
      have "flight_ok ?bks fid' fl'" if "((sys_flights s)(fid \<mapsto> ?fl)) fid' = Some fl'" for fid' fl'
      proof (cases "fid' = fid")
        case True
        with that have "fl' = ?fl" by simp
        moreover have "flight_ok ?bks fid fl" by (rule flight_ok_mono[OF ok]) (rule le)
        ultimately show ?thesis using True by (simp add: flight_ok_waiting)
      next
        case False
        with that inv have ok': "flight_ok (sys_bookings s) fid' fl'" by (simp add: ledger_inv_def)
        show ?thesis by (rule flight_ok_mono[OF ok']) (rule le)
      qed
      then show ?thesis unfolding ledger_inv_def st by blast
    qed
  qed
qed

lemma ledger_inv_add_flight:
  assumes inv: "ledger_inv s" and cap: "0 \<le> cap"
      and fresh: "filter (confirmed_on fid) (sys_bookings s) = []"
  shows "ledger_inv (add_flight s fid orig dest dep arr cap pr dist)"
proof -
  have "filter (confirmed_by p fid) (sys_bookings s) = []" for p
  proof -
    have "confirmed_by p fid kb \<Longrightarrow> confirmed_on fid kb" for kb
      by (simp add: confirmed_by_def confirmed_on_def)
    with fresh show ?thesis by (auto simp: filter_empty_conv)
  qed
  then have "flight_ok (sys_bookings s) fid (Flight fid orig dest dep arr cap pr dist)"
    using cap by (simp add: flight_ok_def Flight_def)
  with inv show ?thesis by (auto simp: ledger_inv_def add_flight_def Let_def)
qed

lemma ledger_inv_register: "ledger_inv s \<Longrightarrow> ledger_inv (snd (register_passenger s n e ph pid))"
  by (simp add: ledger_inv_def register_passenger_def)

lemma ledger_inv_init: "ledger_inv AirlineManagementSystem"
  by (simp add: ledger_inv_def AirlineManagementSystem_def)

lemma ledger_inv_step: "ledger_inv s \<Longrightarrow> freshly_added s oper \<Longrightarrow> ledger_inv (apply_operation s oper)"
  by (cases oper) (simp_all add: ledger_inv_add_flight ledger_inv_register ledger_inv_book ledger_inv_cancel)

lemma ledger_inv_run: "ledger_inv s \<Longrightarrow> admissible s ops \<Longrightarrow> ledger_inv (foldl apply_operation s ops)"
  by (induction ops arbitrary: s) (simp_all add: ledger_inv_step)

lemma admissible_take: "admissible s ops \<Longrightarrow> admissible s (take n ops)"
proof (induction ops arbitrary: s n)
  case Nil then show ?case by simp
next
  case (Cons a ops) then show ?case by (cases n) simp_all
qed

text \<open>
  C1: in every admissible run from the new system, after each operation (after the first
  \<open>n\<close> operations, for every \<open>n\<close>), every flight of the flight map has
  \<open>0 \<le> booked_seats \<le> capacity\<close> and \<open>booked_seats\<close> equal to the length of its
  passenger list. The run may add flights and register passengers at any point between
  bookings and cancellations, and a cancellation that raises counts as an operation.
\<close>

theorem seat_count_invariant:
  assumes "admissible AirlineManagementSystem ops"
      and "sys_flights (foldl apply_operation AirlineManagementSystem (take n ops)) fid = Some fl"
  shows "0 \<le> booked_seats fl \<and> booked_seats fl \<le> capacity fl
         \<and> booked_seats fl = int (length (passengers fl))"
proof -
  from assms(1) have "admissible AirlineManagementSystem (take n ops)" by (rule admissible_take)
  with ledger_inv_init have "ledger_inv (foldl apply_operation AirlineManagementSystem (take n ops))"
    by (rule ledger_inv_run)
  with assms(2) have "flight_ok (sys_bookings (foldl apply_operation AirlineManagementSystem (take n ops))) fid fl"
    by (simp add: ledger_inv_def)
  then show ?thesis by (simp add: flight_ok_def)
qed

theorem seat_count_invariant_witness:
  "admissible AirlineManagementSystem demo_ops
   \<and> sys_flights (foldl apply_operation AirlineManagementSystem (take 7 demo_ops)) ''FL1'' = Some demo_flight
   \<and> 0 \<le> booked_seats demo_flight \<and> booked_seats demo_flight \<le> capacity demo_flight
   \<and> booked_seats demo_flight = int (length (passengers demo_flight))"
proof -
  have a: "admissible AirlineManagementSystem demo_ops"
    by (simp add: demo_ops_def sys_defs confirmed_on_def)
  have b: "sys_flights (foldl apply_operation AirlineManagementSystem (take 7 demo_ops)) ''FL1'' = Some demo_flight"
    by (simp add: demo_ops_def demo_flight_def sys_defs)
  from seat_count_invariant[OF a b] a b show ?thesis by blast
qed


section \<open>find_all_routes enumerates the simple paths within the bound\<close>

lemma is_path_end_mem:
  "is_path g a fls b \<Longrightarrow> fls \<noteq> [] \<Longrightarrow> b \<in> set (map destination fls)"
proof (induction fls arbitrary: a)
  case Nil then show ?case by simp
next
  case (Cons fl fls)
  then show ?case by (cases fls) auto
qed

lemma dfs_routes_stop:
  assumes "current \<in> set pth" "\<not> stps > m" "current = dest" "length pth > 1"
  shows "dfs_routes g m dest current pth stps td tp
         = {\<lparr>path = pth, stops = stps, total_distance = td, total_price = tp\<rparr>}"
proof -
  have nil: "fls = []" if "is_path g current fls dest" "set (map destination fls) \<inter> set pth = {}" for fls
  proof (rule ccontr)
    assume ne: "fls \<noteq> []"
    from is_path_end_mem[OF that(1) ne] assms(1,3) that(2) show False by auto
  qed
  show ?thesis
  proof (rule set_eqI)
    fix r
    show "r \<in> dfs_routes g m dest current pth stps td tp
          \<longleftrightarrow> r \<in> {\<lparr>path = pth, stops = stps, total_distance = td, total_price = tp\<rparr>}"
    proof
      assume "r \<in> dfs_routes g m dest current pth stps td tp"
      then obtain fls where r: "r = \<lparr>path = pth @ map destination fls, stops = stps + int (length fls),
          total_distance = td + sum_list (map distance fls),
          total_price = tp + sum_list (map price fls)\<rparr>"
        and p: "is_path g current fls dest" "set (map destination fls) \<inter> set pth = {}"
        unfolding dfs_routes_def by blast
      from nil[OF p] r show "r \<in> {\<lparr>path = pth, stops = stps, total_distance = td, total_price = tp\<rparr>}"
        by simp
    next
      assume "r \<in> {\<lparr>path = pth, stops = stps, total_distance = td, total_price = tp\<rparr>}"
      then have "r = \<lparr>path = pth @ map destination [], stops = stps + int (length ([]::flight list)),
          total_distance = td + sum_list (map distance []),
          total_price = tp + sum_list (map price [])\<rparr>" by simp
      moreover have "is_path g current [] dest \<and> distinct (map destination [])
          \<and> set (map destination []) \<inter> set pth = {} \<and> stps + int (length ([]::flight list)) \<le> m
          \<and> (([]::flight list) = [] \<longrightarrow> length pth > 1)" using assms by simp
      ultimately show "r \<in> dfs_routes g m dest current pth stps td tp"
        unfolding dfs_routes_def by blast
    qed
  qed
qed

lemma dfs_routes_bound: "stps > m \<Longrightarrow> dfs_routes g m dest current pth stps td tp = {}"
  unfolding dfs_routes_def by auto

text \<open>One step of the search: the routes from \<open>current\<close> are those of its flights to airports not on the path.\<close>

lemma dfs_routes_step:
  assumes "current \<in> set pth" "\<not> (current = dest \<and> length pth > 1)"
  shows "dfs_routes g m dest current pth stps td tp
         = (\<Union>fl \<in> {fl \<in> set (flights_from g current). destination fl \<notin> set pth}.
              dfs_routes g m dest (destination fl) (pth @ [destination fl]) (stps + 1)
                (td + distance fl) (tp + price fl))"
    (is "?L = ?R")
proof (rule set_eqI)
  fix r
  show "r \<in> ?L \<longleftrightarrow> r \<in> ?R"
  proof
    assume "r \<in> ?L"
    then obtain fls where r: "r = \<lparr>path = pth @ map destination fls, stops = stps + int (length fls),
          total_distance = td + sum_list (map distance fls),
          total_price = tp + sum_list (map price fls)\<rparr>"
      and p: "is_path g current fls dest" "distinct (map destination fls)"
        "set (map destination fls) \<inter> set pth = {}" "stps + int (length fls) \<le> m"
        "fls = [] \<longrightarrow> length pth > 1"
      unfolding dfs_routes_def by blast
    from p(1,5) assms(2) obtain fl rest where f: "fls = fl # rest" by (cases fls) auto
    from p f have fl: "fl \<in> set (flights_from g current)" "destination fl \<notin> set pth" by auto
    have "r \<in> dfs_routes g m dest (destination fl) (pth @ [destination fl]) (stps + 1)
                (td + distance fl) (tp + price fl)"
      unfolding dfs_routes_def
      using r p f assms(1) by (intro CollectI exI[of _ rest]) (auto simp: algebra_simps)
    with fl show "r \<in> ?R" by blast
  next
    assume "r \<in> ?R"
    then obtain fl rest where fl: "fl \<in> set (flights_from g current)" "destination fl \<notin> set pth"
      and r: "r = \<lparr>path = (pth @ [destination fl]) @ map destination rest,
          stops = (stps + 1) + int (length rest),
          total_distance = (td + distance fl) + sum_list (map distance rest),
          total_price = (tp + price fl) + sum_list (map price rest)\<rparr>"
      and p: "is_path g (destination fl) rest dest" "distinct (map destination rest)"
        "set (map destination rest) \<inter> set (pth @ [destination fl]) = {}"
        "(stps + 1) + int (length rest) \<le> m"
      unfolding dfs_routes_def by blast
    show "r \<in> ?L"
      unfolding dfs_routes_def
      using r p fl by (intro CollectI exI[of _ "fl # rest"]) (auto simp: algebra_simps)
  qed
qed

lemma dfs_correct:
  "current \<in> set pth \<Longrightarrow>
   set (dfs g m dest current pth stps td tp) = dfs_routes g m dest current pth stps td tp"
proof (induction g m dest current pth stps td tp rule: dfs.induct)
  case (1 g m dest current pth stps td tp)
  show ?case
  proof (cases "stps > m")
    case True
    then show ?thesis by (simp add: dfs.simps dfs_routes_bound)
  next
    case nb: False
    show ?thesis
    proof (cases "current = dest \<and> length pth > 1")
      case True
      with nb dfs_routes_stop[OF "1.prems" nb] show ?thesis by (simp add: dfs.simps)
    next
      case False
      have ih: "set (dfs g m dest (destination fl) (pth @ [destination fl]) (stps + 1)
                  (td + distance fl) (tp + price fl))
              = dfs_routes g m dest (destination fl) (pth @ [destination fl]) (stps + 1)
                  (td + distance fl) (tp + price fl)"
        if "fl \<in> set (flights_from g current)" "destination fl \<notin> set pth" for fl
        using "1.IH"[OF nb False that(1) refl that(2)] by simp
      have "set (dfs g m dest current pth stps td tp)
            = (\<Union>fl \<in> {fl \<in> set (flights_from g current). destination fl \<notin> set pth}.
                 set (dfs g m dest (destination fl) (pth @ [destination fl]) (stps + 1)
                    (td + distance fl) (tp + price fl)))"
        using nb False by (subst dfs.simps) (auto simp: Let_def)
      also have "\<dots> = (\<Union>fl \<in> {fl \<in> set (flights_from g current). destination fl \<notin> set pth}.
                 dfs_routes g m dest (destination fl) (pth @ [destination fl]) (stps + 1)
                    (td + distance fl) (tp + price fl))"
        using ih by auto
      also have "\<dots> = dfs_routes g m dest current pth stps td tp"
        using dfs_routes_step[OF "1.prems" False] by simp
      finally show ?thesis .
    qed
  qed
qed

text \<open>
  C4: the routes \<open>find_all_routes\<close> returns are exactly the routes of the paths from
  \<open>start\<close> to \<open>end\<close> that have at least one flight, visit no airport twice and have at
  most \<open>max_stops\<close> flights; each route carries the airport sequence, the number of
  flights and the sums of the distances and prices. The function is total, and its
  result is the empty list exactly when there is no such path.
\<close>

theorem find_all_routes_exact:
  "set (find_all_routes g start end max_stops)
   = {route_of start fls | fls.
        fls \<noteq> [] \<and> is_path g start fls end \<and> distinct (airports_of start fls)
        \<and> int (length fls) \<le> max_stops}"
proof -
  have "set (find_all_routes g start end max_stops) = dfs_routes g max_stops end start [start] 0 0 0"
    unfolding find_all_routes_def by (rule dfs_correct) simp
  also have "\<dots> = {route_of start fls | fls.
        fls \<noteq> [] \<and> is_path g start fls end \<and> distinct (airports_of start fls)
        \<and> int (length fls) \<le> max_stops}"
    unfolding dfs_routes_def route_of_def airports_of_def by auto
  finally show ?thesis .
qed

section \<open>dijkstra_shortest_path returns a path of least cost\<close>

lemma is_path_append:
  "is_path g a (xs @ ys) c \<longleftrightarrow> (\<exists>b. is_path g a xs b \<and> is_path g b ys c)"
  by (induction xs arbitrary: a) auto

lemma path_cost_append [simp]: "path_cost cr (xs @ ys) = path_cost cr xs + path_cost cr ys"
  by (simp add: path_cost_def)

lemma path_cost_Cons [simp]: "path_cost cr (x # xs) = edge_cost cr x + path_cost cr xs"
  by (simp add: path_cost_def)

lemma path_cost_Nil [simp]: "path_cost cr [] = 0"
  by (simp add: path_cost_def)

lemma path_cost_nonneg:
  "nonneg_weights g cr \<Longrightarrow> is_path g a fls b \<Longrightarrow> 0 \<le> path_cost cr fls"
  by (induction fls arbitrary: a) (auto simp: nonneg_weights_def)

lemma exit_split:
  "is_path g a fls b \<Longrightarrow> a \<in> V \<Longrightarrow> b \<notin> V \<Longrightarrow>
   \<exists>fls1 fl fls2 x. fls = fls1 @ fl # fls2 \<and> is_path g a fls1 x \<and> x \<in> V
      \<and> fl \<in> set (flights_from g x) \<and> destination fl \<notin> V \<and> is_path g (destination fl) fls2 b"
proof (induction fls arbitrary: a)
  case Nil then show ?case by simp
next
  case (Cons fl fls)
  then have fl: "fl \<in> set (flights_from g a)" and rest: "is_path g (destination fl) fls b" by auto
  show ?case
  proof (cases "destination fl \<in> V")
    case False
    with Cons.prems fl rest have "fl # fls = [] @ fl # fls \<and> is_path g a [] a \<and> a \<in> V
      \<and> fl \<in> set (flights_from g a) \<and> destination fl \<notin> V \<and> is_path g (destination fl) fls b" by simp
    then show ?thesis by blast
  next
    case True
    from Cons.IH[OF rest True Cons.prems(3)] obtain fls1 fl' fls2 x where
      s: "fls = fls1 @ fl' # fls2" "is_path g (destination fl) fls1 x" "x \<in> V"
       "fl' \<in> set (flights_from g x)" "destination fl' \<notin> V" "is_path g (destination fl') fls2 b" by blast
    with fl have "fl # fls = (fl # fls1) @ fl' # fls2 \<and> is_path g a (fl # fls1) x" by simp
    with s show ?thesis by blast
  qed
qed

lemma frontier:
  assumes nn: "nonneg_weights g cr" and inv: "dijkstra_inv g cr start end pq visited"
      and p: "is_path g start fls v" and v: "v \<notin> visited"
  shows "\<exists>e \<in> set pq. fst e \<le> path_cost cr fls"
proof (cases "start \<in> visited")
  case False
  with inv obtain e where "e \<in> set pq" "fst e \<le> 0" by (auto simp: dijkstra_inv_def)
  with path_cost_nonneg[OF nn p] show ?thesis by force
next
  case True
  from exit_split[OF p True v] obtain fls1 fl fls2 x where
    s: "fls = fls1 @ fl # fls2" "is_path g start fls1 x" "x \<in> visited"
       "fl \<in> set (flights_from g x)" "destination fl \<notin> visited" "is_path g (destination fl) fls2 v" by blast
  with inv obtain e where e: "e \<in> set pq" "fst e \<le> path_cost cr fls1 + edge_cost cr fl"
    unfolding dijkstra_inv_def by blast
  from path_cost_nonneg[OF nn s(6)] s(1) e(2) have "fst e \<le> path_cost cr fls" by simp
  with e(1) show ?thesis by blast
qed

lemma popped_optimal:
  assumes nn: "nonneg_weights g cr" and inv: "dijkstra_inv g cr start end pq visited"
      and pop: "heappop pq = Some ((c, a, pth), pq')" and a: "a \<notin> visited"
      and p: "is_path g start fls a"
  shows "c \<le> path_cost cr fls"
proof -
  from frontier[OF nn inv p a] obtain e where e: "e \<in> set pq" "fst e \<le> path_cost cr fls" by blast
  from heappop_Some[OF pop] e(1) have "(c, a, pth) \<le> e" by blast
  then have "c \<le> fst e" by (cases e) (auto simp: less_eq_prod_def)
  with e(2) show ?thesis by simp
qed


lemma in_remove1_other: "e \<in> set xs \<Longrightarrow> e \<noteq> x \<Longrightarrow> e \<in> set (remove1 x xs)"
  by (induction xs) auto

lemma inv_skip:
  assumes inv: "dijkstra_inv g cr start end pq visited"
      and pop: "heappop pq = Some ((c, a, pth), pq')" and a: "a \<in> visited"
  shows "dijkstra_inv g cr start end pq' visited"
proof -
  from heappop_Some[OF pop] have pq': "pq' = remove1 (c, a, pth) pq" by simp
  have keep: "e \<in> set pq'" if "e \<in> set pq" "fst (snd e) \<notin> visited" for e
    unfolding pq' using that a by (intro in_remove1_other) auto
  have sub: "set pq' \<subseteq> set pq" unfolding pq' by (rule set_remove1_subset)
  show ?thesis
    unfolding dijkstra_inv_def
  proof (intro conjI ballI allI impI)
    fix e assume "e \<in> set pq'"
    with sub inv show "entry_ok g cr start e" by (auto simp: dijkstra_inv_def)
  next
    fix x fls fl
    assume h: "x \<in> visited" "is_path g start fls x" "fl \<in> set (flights_from g x)"
      "destination fl \<notin> visited"
    with inv obtain e where e: "e \<in> set pq" "fst (snd e) = destination fl"
      "fst e \<le> path_cost cr fls + edge_cost cr fl" unfolding dijkstra_inv_def by blast
    with keep[of e] h(4) show "\<exists>e\<in>set pq'. fst (snd e) = destination fl
        \<and> fst e \<le> path_cost cr fls + edge_cost cr fl" by auto
  next
    show "start \<in> visited \<or> (\<exists>e\<in>set pq'. fst (snd e) = start \<and> fst e \<le> 0)"
    proof (cases "start \<in> visited")
      case True then show ?thesis by simp
    next
      case False
      with inv obtain e where e: "e \<in> set pq" "fst (snd e) = start" "fst e \<le> 0"
        by (auto simp: dijkstra_inv_def)
      with keep[of e] False show ?thesis by auto
    qed
  next
    from inv show "end \<notin> visited" by (simp add: dijkstra_inv_def)
  qed
qed

lemma inv_visit:
  assumes nn: "nonneg_weights g cr" and inv: "dijkstra_inv g cr start end pq visited"
      and pop: "heappop pq = Some ((c, a, pth), pq')" and a: "a \<notin> visited" and ne: "a \<noteq> end"
  shows "dijkstra_inv g cr start end
           (push_flights cr (insert a visited) c pth (flights_from g a) pq') (insert a visited)"
    (is "dijkstra_inv g cr start end ?pq2 ?V")
proof -
  from heappop_Some[OF pop] have pq': "pq' = remove1 (c, a, pth) pq" and inpq: "(c, a, pth) \<in> set pq"
    by simp_all
  have set2: "set ?pq2 = set pq' \<union> (\<lambda>fl. (c + edge_cost cr fl, destination fl, pth @ [destination fl])) `
                {fl \<in> set (flights_from g a). destination fl \<notin> ?V}"
    by (rule set_push_flights)
  have keep: "e \<in> set ?pq2" if "e \<in> set pq" "fst (snd e) \<noteq> a" for e
  proof -
    from that have "e \<in> set pq'" unfolding pq' by (intro in_remove1_other) auto
    then show ?thesis unfolding set2 by simp
  qed
  have sub: "set pq' \<subseteq> set pq" unfolding pq' by (rule set_remove1_subset)
  from inv inpq have "entry_ok g cr start (c, a, pth)" by (auto simp: dijkstra_inv_def)
  then obtain fls0 where f0: "is_path g start fls0 a" "pth = airports_of start fls0"
    "c = path_cost cr fls0" by (auto simp: entry_ok_def)
  show ?thesis
    unfolding dijkstra_inv_def
  proof (intro conjI ballI allI impI)
    fix e assume "e \<in> set ?pq2"
    then consider "e \<in> set pq'" | fl where "fl \<in> set (flights_from g a)"
      "e = (c + edge_cost cr fl, destination fl, pth @ [destination fl])"
      unfolding set2 by blast
    then show "entry_ok g cr start e"
    proof cases
      case 1 with sub inv show ?thesis by (auto simp: dijkstra_inv_def)
    next
      case 2
      from f0 2(1) have "is_path g start (fls0 @ [fl]) (destination fl)"
        by (auto simp: is_path_append)
      moreover have "pth @ [destination fl] = airports_of start (fls0 @ [fl])"
        using f0 by (simp add: airports_of_def)
      moreover have "c + edge_cost cr fl = path_cost cr (fls0 @ [fl])" using f0 by simp
      ultimately show ?thesis unfolding entry_ok_def 2(2) by (intro exI[of _ "fls0 @ [fl]"]) simp
    qed
  next
    fix x fls fl
    assume h: "x \<in> ?V" "is_path g start fls x" "fl \<in> set (flights_from g x)" "destination fl \<notin> ?V"
    show "\<exists>e\<in>set ?pq2. fst (snd e) = destination fl \<and> fst e \<le> path_cost cr fls + edge_cost cr fl"
    proof (cases "x = a")
      case True
      from popped_optimal[OF nn inv pop a] h(2) True have "c \<le> path_cost cr fls" by simp
      moreover from h(3,4) True have "(c + edge_cost cr fl, destination fl, pth @ [destination fl]) \<in> set ?pq2"
        unfolding set2 by blast
      ultimately show ?thesis by force
    next
      case False
      with h have "x \<in> visited" "destination fl \<notin> visited" by auto
      with inv h obtain e where e: "e \<in> set pq" "fst (snd e) = destination fl"
        "fst e \<le> path_cost cr fls + edge_cost cr fl" unfolding dijkstra_inv_def by blast
      with keep[of e] h(4) show ?thesis by auto
    qed
  next
    show "start \<in> ?V \<or> (\<exists>e\<in>set ?pq2. fst (snd e) = start \<and> fst e \<le> 0)"
    proof (cases "start \<in> ?V")
      case True then show ?thesis by simp
    next
      case False
      with inv obtain e where e: "e \<in> set pq" "fst (snd e) = start" "fst e \<le> 0"
        by (auto simp: dijkstra_inv_def)
      with keep[of e] False show ?thesis by auto
    qed
  next
    from inv ne show "end \<notin> ?V" by (simp add: dijkstra_inv_def)
  qed
qed

lemma dijkstra_loop_correct:
  shows "nonneg_weights g cr \<Longrightarrow> dijkstra_inv g cr start dst pq visited \<Longrightarrow>
     (case dijkstra_loop g dst cr pq visited of
        None \<Rightarrow> \<forall>fls. \<not> is_path g start fls dst
      | Some (pth, c) \<Rightarrow>
          (\<exists>fls. is_path g start fls dst \<and> pth = airports_of start fls \<and> c = path_cost cr fls)
          \<and> (\<forall>fls. is_path g start fls dst \<longrightarrow> c \<le> path_cost cr fls))"
proof (induction g dst cr pq visited rule: dijkstra_loop.induct)
  case (1 g dst cr pq visited)
  note nn' = "1.prems"(1) and inv = "1.prems"(2)
  show ?case
  proof (cases "heappop pq")
    case None
    then have "pq = []" by (cases pq) (auto simp: Let_def)
    have "\<not> is_path g start fls dst" for fls
    proof
      assume "is_path g start fls dst"
      moreover from inv have "dst \<notin> visited" by (simp add: dijkstra_inv_def)
      ultimately obtain e where "e \<in> set pq" using frontier[OF nn' inv] by blast
      with \<open>pq = []\<close> show False by simp
    qed
    with None show ?thesis by (subst dijkstra_loop.simps) simp
  next
    case (Some r)
    obtain c a pth pq' where r: "r = ((c, a, pth), pq')" by (cases r) auto
    note pop = Some[unfolded r]
    show ?thesis
    proof (cases "a \<in> visited")
      case True
      from "1.IH"(1)[OF pop refl refl refl True nn' inv_skip[OF inv pop True]] 
      show ?thesis using pop True by (subst dijkstra_loop.simps) simp
    next
      case nv: False
      show ?thesis
      proof (cases "a = dst")
        case True
        from heappop_Some[OF pop] inv have "entry_ok g cr start (c, a, pth)"
          by (auto simp: dijkstra_inv_def)
        then have "\<exists>fls. is_path g start fls dst \<and> pth = airports_of start fls \<and> c = path_cost cr fls"
          using True by (auto simp: entry_ok_def)
        moreover have "\<forall>fls. is_path g start fls dst \<longrightarrow> c \<le> path_cost cr fls"
          using popped_optimal[OF nn' inv pop nv] True by blast
        ultimately show ?thesis using pop nv True by (subst dijkstra_loop.simps) simp
      next
        case False
        from "1.IH"(2)[OF pop refl refl refl nv refl False nn' inv_visit[OF nn' inv pop nv False]]
        show ?thesis using pop nv False by (subst dijkstra_loop.simps) (simp add: Let_def)
      qed
    qed
  qed
qed


lemma dijkstra_inv_init: "dijkstra_inv g cr start dst [(0, start, [start])] {}"
  unfolding dijkstra_inv_def entry_ok_def
  by (auto intro!: exI[of _ "[]"] simp: airports_of_def)

text \<open>
  C3: for a graph without negative weights under the criterion,
  \<open>dijkstra_shortest_path\<close> returns \<open>None\<close> when one of the airports is not in
  \<open>airports\<close>; for two airports of the graph it returns \<open>None\<close> only if no path leads from
  \<open>start\<close> to \<open>end\<close>, and otherwise the airport sequence and the cost of a path from
  \<open>start\<close> to \<open>end\<close> such that no path from \<open>start\<close> to \<open>end\<close> costs less. The loop
  terminates on every input, so one of the two results is always returned.
\<close>

theorem dijkstra_shortest_path_optimal:
  assumes "nonneg_weights g criteria"
  shows "(start \<notin> airports g \<or> end \<notin> airports g \<longrightarrow>
            dijkstra_shortest_path g start end criteria = None)
       \<and> (start \<in> airports g \<and> end \<in> airports g \<longrightarrow>
            (case dijkstra_shortest_path g start end criteria of
               None \<Rightarrow> \<forall>fls. \<not> is_path g start fls end
             | Some (pth, c) \<Rightarrow>
                 (\<exists>fls. is_path g start fls end \<and> pth = airports_of start fls
                        \<and> c = path_cost criteria fls)
                 \<and> (\<forall>fls. is_path g start fls end \<longrightarrow> c \<le> path_cost criteria fls)))"
proof (intro conjI impI)
  assume "start \<notin> airports g \<or> end \<notin> airports g"
  then show "dijkstra_shortest_path g start end criteria = None"
    by (auto simp: dijkstra_shortest_path_def)
next
  assume k: "start \<in> airports g \<and> end \<in> airports g"
  have "dijkstra_inv g criteria start end [(0, start, [start])] {}"
    by (rule dijkstra_inv_init)
  from dijkstra_loop_correct[OF assms this] k
  show "case dijkstra_shortest_path g start end criteria of
               None \<Rightarrow> \<forall>fls. \<not> is_path g start fls end
             | Some (pth, c) \<Rightarrow>
                 (\<exists>fls. is_path g start fls end \<and> pth = airports_of start fls
                        \<and> c = path_cost criteria fls)
                 \<and> (\<forall>fls. is_path g start fls end \<longrightarrow> c \<le> path_cost criteria fls)"
    by (simp add: dijkstra_shortest_path_def)
qed

lemma scenario_graph_flights_from:
  "flights_from scenario_graph a =
     (if a = ''CHI'' then [Flight ''FL004'' ''CHI'' ''LAX'' ''13:00'' ''15:30'' 120 400 1745]
      else if a = ''NYC'' then [Flight ''FL003'' ''NYC'' ''CHI'' ''09:00'' ''11:30'' 120 300 790]
      else [])"
  by (simp add: scenario_graph_def add_flight_route_def flights_from_def AirportGraph_def
        Flight_def Let_def)

lemma scenario_dijkstra:
  "dijkstra_shortest_path scenario_graph ''NYC'' ''LAX'' ''distance''
     = Some ([''NYC'', ''CHI'', ''LAX''], 2535)"
proof -
  have a: "''NYC'' \<in> airports scenario_graph" "''LAX'' \<in> airports scenario_graph"
    by (simp_all add: scenario_graph_def add_flight_route_def AirportGraph_def Flight_def Let_def)
  show ?thesis
    by (simp add: dijkstra_shortest_path_def a dijkstra_loop.simps scenario_graph_flights
          heappush_def edge_cost_def Flight_def Let_def)
qed

text \<open>
  The theorem on the two-flight graph: from NYC to LAX by distance the result is the
  path NYC, CHI, LAX of cost 2535, and no path is cheaper; SEA is not an airport of the
  graph, so the result for it is \<open>None\<close>.
\<close>

theorem dijkstra_shortest_path_optimal_witness:
  "nonneg_weights scenario_graph ''distance''
   \<and> ''NYC'' \<in> airports scenario_graph \<and> ''LAX'' \<in> airports scenario_graph
   \<and> dijkstra_shortest_path scenario_graph ''NYC'' ''LAX'' ''distance''
       = Some ([''NYC'', ''CHI'', ''LAX''], 2535)
   \<and> \<not> (\<exists>fls. is_path scenario_graph ''NYC'' fls ''LAX'' \<and> path_cost ''distance'' fls < 2535)
   \<and> dijkstra_shortest_path scenario_graph ''NYC'' ''SEA'' ''distance'' = None"
proof -
  have nn: "nonneg_weights scenario_graph ''distance''"
    by (simp add: nonneg_weights_def scenario_graph_flights_from edge_cost_def Flight_def)
  have a: "''NYC'' \<in> airports scenario_graph" "''LAX'' \<in> airports scenario_graph"
    "''SEA'' \<notin> airports scenario_graph"
    by (simp_all add: scenario_graph_def add_flight_route_def AirportGraph_def Flight_def Let_def)
  note t = dijkstra_shortest_path_optimal[OF nn, of "''NYC''" "''LAX''"]
  from t a scenario_dijkstra
  have "\<forall>fls. is_path scenario_graph ''NYC'' fls ''LAX'' \<longrightarrow> 2535 \<le> path_cost ''distance'' fls"
    by simp
  then have opt: "\<not> (\<exists>fls. is_path scenario_graph ''NYC'' fls ''LAX'' \<and> path_cost ''distance'' fls < 2535)"
    by force
  from dijkstra_shortest_path_optimal[OF nn, of "''NYC''" "''SEA''"] a
  have none: "dijkstra_shortest_path scenario_graph ''NYC'' ''SEA'' ''distance'' = None" by blast
  show ?thesis using nn a scenario_dijkstra opt none by blast
qed


end
